theory Spec2Isabelle
  imports Complex_Main
begin

section \<open>The Lucene tree and the Elasticsearch items\<close>

text \<open>
  Modelled from the spec: the Lucene tree of \<^verbatim>\<open>luqum.tree\<close>, which is not among the
  sources. One constructor per node kind of the spec's data model, each with the payload
  the visitor reads: \<^verbatim>\<open>value\<close> of a word or phrase, the two bound values and inclusivity
  flags of a range, the operands of the three operations (\<^verbatim>\<open>children\<close>), the single operand
  of the unary nodes and of the modifiers, \<^verbatim>\<open>force\<close> and \<^verbatim>\<open>degree\<close> (a decimal, kept
  abstract as the type parameter), \<^verbatim>\<open>expr\<close> of the two groups, \<^verbatim>\<open>name\<close> of a search field.
\<close>

datatype 'd node =
    Word string
  | Phrase string
  | Range string string bool bool
  | AndOperation "'d node list"
  | OrOperation "'d node list"
  | UnknownOperation "'d node list"
  | Not "'d node"
  | Prohibit "'d node"
  | Plus "'d node"
  | Boost "'d node" 'd
  | Fuzzy "'d node" 'd
  | Proximity "'d node" 'd
  | Group "'d node"
  | FieldGroup "'d node"
  | SearchField string "'d node"

text \<open>The class of a node, for \<^verbatim>\<open>type(child) is type(current_node)\<close> and \<^verbatim>\<open>isinstance\<close>.\<close>

datatype node_type =
    TWord | TPhrase | TRange | TAndOperation | TOrOperation | TUnknownOperation
  | TNot | TProhibit | TPlus | TBoost | TFuzzy | TProximity | TGroup | TFieldGroup
  | TSearchField

fun type_of :: "'d node \<Rightarrow> node_type" where
  "type_of (Word v) = TWord"
| "type_of (Phrase v) = TPhrase"
| "type_of (Range lo hi il ih) = TRange"
| "type_of (AndOperation cs) = TAndOperation"
| "type_of (OrOperation cs) = TOrOperation"
| "type_of (UnknownOperation cs) = TUnknownOperation"
| "type_of (Not a) = TNot"
| "type_of (Prohibit a) = TProhibit"
| "type_of (Plus a) = TPlus"
| "type_of (Boost a f) = TBoost"
| "type_of (Fuzzy a d) = TFuzzy"
| "type_of (Proximity a d) = TProximity"
| "type_of (Group a) = TGroup"
| "type_of (FieldGroup a) = TFieldGroup"
| "type_of (SearchField nm a) = TSearchField"

text \<open>
  Modelled from the spec: the \<^verbatim>\<open>children\<close> property of a node (\<^verbatim>\<open>luqum.tree\<close> is
  absent): the operands of an operation, the single operand of a unary node, modifier,
  group or search field, nothing for a word or a phrase. The bounds of a range are
  values here, not nodes, so a range has no child node.
\<close>

fun children :: "'d node \<Rightarrow> 'd node list" where
  "children (Word v) = []"
| "children (Phrase v) = []"
| "children (Range lo hi il ih) = []"
| "children (AndOperation cs) = cs"
| "children (OrOperation cs) = cs"
| "children (UnknownOperation cs) = cs"
| "children (Not a) = [a]"
| "children (Prohibit a) = [a]"
| "children (Plus a) = [a]"
| "children (Boost a f) = [a]"
| "children (Fuzzy a d) = [a]"
| "children (Proximity a d) = [a]"
| "children (Group a) = [a]"
| "children (FieldGroup a) = [a]"
| "children (SearchField nm a) = [a]"

text \<open>
  Modelled from the spec: the items of \<^verbatim>\<open>luqum.elasticsearch.tree\<close>, which is not among
  the sources. \<^verbatim>\<open>EWord\<close>, \<^verbatim>\<open>EPhrase\<close> and \<^verbatim>\<open>ERange\<close> are the leaves (the
  \<^verbatim>\<open>AbstractEItem\<close> instances), each with its \<^verbatim>\<open>fields\<close> sequence; \<^verbatim>\<open>EMust\<close>,
  \<^verbatim>\<open>EShould\<close> and \<^verbatim>\<open>EMustNot\<close> hold the list \<^verbatim>\<open>items\<close>; \<^verbatim>\<open>ENested\<close> holds its
  \<^verbatim>\<open>nested_path\<close> and the one wrapped item. The visitor assigns \<^verbatim>\<open>boost\<close>,
  \<^verbatim>\<open>fuzziness\<close> and \<^verbatim>\<open>slop\<close> to whatever object the inner visit returned, and a Python
  object of any of these classes takes the assignment, so every item has the three slots.
  \<^verbatim>\<open>PyNone\<close> is Python's \<^verbatim>\<open>None\<close>, which a visit method returns when it falls off its
  end.
\<close>

record 'f attrs =
  boost :: "'f option"
  fuzziness :: "'f option"
  slop :: "'f option"

datatype 'f eitem =
    EWord string string "string list" "'f attrs"
  | EPhrase string string "string list" "'f attrs"
  | ERange "(string \<times> string) list" "string list" "'f attrs"
  | EMust "'f eitem list" "'f attrs"
  | EShould "'f eitem list" "'f attrs"
  | EMustNot "'f eitem list" "'f attrs"
  | ENested string "'f eitem" "'f attrs"
  | PyNone

definition no_attrs :: "'f attrs" where
  "no_attrs = \<lparr>boost = None, fuzziness = None, slop = None\<rparr>"

datatype error =
    OrAndAndOnSameLevel string
  | IndexError
  | AttributeError
  | TypeError

text \<open>
  The builder's own state is what \<^verbatim>\<open>__init__\<close> stores and the visit methods read. The
  two field lists are only handed to the item factory.
\<close>

record builder =
  default_operator :: string
  default_field :: string

definition SHOULD :: string where
  "SHOULD = ''should''"

definition MUST :: string where
  "MUST = ''must''"

text \<open>
  What the visitor takes from outside this module: \<^verbatim>\<open>str\<close> of a node (\<^verbatim>\<open>luqum.tree\<close>),
  Python's \<^verbatim>\<open>float\<close> of a modifier's decimal, and the \<^verbatim>\<open>fields\<close> sequence a leaf
  starts with when the factory builds it, given the \<^verbatim>\<open>default_field\<close> keyword the visitor
  passed (none for a range).
\<close>

record ('d, 'f) host =
  str_of :: "'d node \<Rightarrow> string"
  float_of :: "'d \<Rightarrow> 'f"
  leaf_fields :: "string option \<Rightarrow> string list"

section \<open>The visitor\<close>

lemma size_children: "size_list size (children n) \<le> size n"
  by (cases n) simp_all

function simplify_if_same :: "'d node list \<Rightarrow> 'd node \<Rightarrow> 'd node list" where
  "simplify_if_same [] current_node = []"
| "simplify_if_same (child # rest) current_node =
     (if type_of child = type_of current_node
      then simplify_if_same (children child) current_node
      else [child]) @ simplify_if_same rest current_node"
  by pat_completeness auto
termination
proof (relation "measure (\<lambda>(cs, n). size_list size cs)")
  show "wf (measure (\<lambda>(cs, n :: 'd node). size_list size cs))" by simp
next
  fix child :: "'d node" and rest current_node
  have "size_list size (children child) \<le> size child" by (rule size_children)
  then show "((children child, current_node), child # rest, current_node)
      \<in> measure (\<lambda>(cs, n). size_list size cs)" by simp
next
  fix child :: "'d node" and rest current_node
  show "((rest, current_node), child # rest, current_node)
      \<in> measure (\<lambda>(cs, n). size_list size cs)" by simp
qed

text \<open>\<^verbatim>\<open>str.find\<close>: the lowest index where the substring starts, or -1.\<close>

fun py_find :: "string \<Rightarrow> string \<Rightarrow> int" where
  "py_find [] sub = (if sub = [] then 0 else -1)"
| "py_find (c # s) sub =
     (if take (length sub) (c # s) = sub then 0
      else (let r = py_find s sub in if r < 0 then -1 else r + 1))"

text \<open>A slice \<^verbatim>\<open>s[start:stop]\<close>: a negative index counts from the end, both are clamped.\<close>

definition py_slice :: "string \<Rightarrow> int \<Rightarrow> int \<Rightarrow> string" where
  "py_slice s start stop =
     (let n = int (length s);
          lo = (if start < 0 then max 0 (start + n) else min start n);
          hi = (if stop < 0 then max 0 (stop + n) else min stop n)
      in take (nat (hi - lo)) (drop (nat lo) s))"

text \<open>
  \<^verbatim>\<open>_get_operator_extract\<close>. \<^verbatim>\<open>children[0]\<close> and \<^verbatim>\<open>children[1]\<close> raise IndexError on an
  operation with fewer than two operands.
\<close>

definition get_operator_extract :: "('d, 'f) host \<Rightarrow> 'd node \<Rightarrow> int \<Rightarrow> error + string" where
  "get_operator_extract h binary_operation delta =
     (case children binary_operation of
        c1 # c2 # others \<Rightarrow>
          (let node_str = str_of h binary_operation;
               child_str_1 = str_of h c1;
               child_str_2 = str_of h c2;
               middle_length =
                 int (length node_str) - int (length child_str_1) - int (length child_str_2);
               position = py_find node_str child_str_2;
               start = (if position - middle_length - delta \<ge> 0
                        then position - middle_length - delta else 0);
               stop = position + delta
           in Inr (py_slice node_str start stop))
      | _ \<Rightarrow> Inl IndexError)"

definition is_must :: "builder \<Rightarrow> 'd node \<Rightarrow> bool" where
  "is_must b operation =
     (type_of operation = TAndOperation \<or>
      type_of operation = TUnknownOperation \<and> default_operator b = MUST)"

definition is_should :: "builder \<Rightarrow> 'd node \<Rightarrow> bool" where
  "is_should b operation =
     (type_of operation = TOrOperation \<or>
      type_of operation = TUnknownOperation \<and> default_operator b = SHOULD)"

text \<open>
  \<^verbatim>\<open>_yield_nested_children\<close> is a generator: the list of what it yields, in order, each
  child as \<open>Inr\<close>, ended by \<open>Inl\<close> of the exception where it raises. The consumer reads
  it from the left, so what stands before the exception has been visited when it is
  raised.
\<close>

fun yield_nested_children ::
  "('d, 'f) host \<Rightarrow> builder \<Rightarrow> 'd node \<Rightarrow> 'd node list \<Rightarrow> (error + 'd node) list" where
  "yield_nested_children h b parent [] = []"
| "yield_nested_children h b parent (child # rest) =
     (if is_should b parent \<and> is_must b child \<or> is_must b parent \<and> is_should b child
      then [Inl (case get_operator_extract h child 8 of
                   Inl e \<Rightarrow> e
                 | Inr extract \<Rightarrow> OrAndAndOnSameLevel extract)]
      else Inr child # yield_nested_children h b parent rest)"

text \<open>
  \<^verbatim>\<open>_set_search_field_in_all_children\<close>. The items are fresh objects owned by one
  parent, so the in-place \<^verbatim>\<open>fields.insert(0, field_name)\<close> is the rebuilt item.
  An item that is no \<^verbatim>\<open>AbstractEItem\<close> goes to \<^verbatim>\<open>for item in enode.items\<close>:
  \<^verbatim>\<open>None\<close> has no \<^verbatim>\<open>items\<close>, AttributeError; the \<^verbatim>\<open>items\<close> of an \<^verbatim>\<open>ENested\<close> is
  the one item it wraps, as \<^verbatim>\<open>visit_search_field\<close> builds and reads it, and an item is
  not iterable, TypeError.
\<close>

fun set_search_field_in_all_children :: "'f eitem \<Rightarrow> string \<Rightarrow> error + 'f eitem"
  and set_search_field_in_items :: "'f eitem list \<Rightarrow> string \<Rightarrow> error + 'f eitem list" where
  "set_search_field_in_all_children (EWord q df fs a) field_name =
     Inr (EWord q df (field_name # fs) a)"
| "set_search_field_in_all_children (EPhrase q df fs a) field_name =
     Inr (EPhrase q df (field_name # fs) a)"
| "set_search_field_in_all_children (ERange kw fs a) field_name =
     Inr (ERange kw (field_name # fs) a)"
| "set_search_field_in_all_children (EMust items a) field_name =
     (case set_search_field_in_items items field_name of
        Inl e \<Rightarrow> Inl e | Inr items' \<Rightarrow> Inr (EMust items' a))"
| "set_search_field_in_all_children (EShould items a) field_name =
     (case set_search_field_in_items items field_name of
        Inl e \<Rightarrow> Inl e | Inr items' \<Rightarrow> Inr (EShould items' a))"
| "set_search_field_in_all_children (EMustNot items a) field_name =
     (case set_search_field_in_items items field_name of
        Inl e \<Rightarrow> Inl e | Inr items' \<Rightarrow> Inr (EMustNot items' a))"
| "set_search_field_in_all_children (ENested path item a) field_name = Inl TypeError"
| "set_search_field_in_all_children PyNone field_name = Inl AttributeError"
| "set_search_field_in_items [] field_name = Inr []"
| "set_search_field_in_items (item # rest) field_name =
     (case set_search_field_in_all_children item field_name of
        Inl e \<Rightarrow> Inl e
      | Inr item' \<Rightarrow>
          (case set_search_field_in_items rest field_name of
             Inl e \<Rightarrow> Inl e | Inr rest' \<Rightarrow> Inr (item' # rest')))"

lemma size_child_of: "child \<in> set (children n) \<Longrightarrow> size child < size n"
  by (cases n) (auto simp: less_Suc_eq_le size_list_estimation')

function is_nested :: "'d node \<Rightarrow> bool" where
  "is_nested node =
     list_ex (\<lambda>child. type_of child = TSearchField \<or> is_nested child) (children node)"
  by pat_completeness auto
termination
  by (relation "measure size") (auto simp: size_child_of)

declare is_nested.simps [simp del]

text \<open>
  An attribute assignment \<^verbatim>\<open>item.boost = v\<close> (and the two others): it replaces the one
  slot of the item and raises AttributeError on \<^verbatim>\<open>None\<close>.
\<close>

fun map_attrs :: "('f attrs \<Rightarrow> 'f attrs) \<Rightarrow> 'f eitem \<Rightarrow> 'f eitem" where
  "map_attrs g (EWord q df fs a) = EWord q df fs (g a)"
| "map_attrs g (EPhrase q df fs a) = EPhrase q df fs (g a)"
| "map_attrs g (ERange kw fs a) = ERange kw fs (g a)"
| "map_attrs g (EMust items a) = EMust items (g a)"
| "map_attrs g (EShould items a) = EShould items (g a)"
| "map_attrs g (EMustNot items a) = EMustNot items (g a)"
| "map_attrs g (ENested path item a) = ENested path item (g a)"
| "map_attrs g PyNone = PyNone"

definition set_attr :: "('f attrs \<Rightarrow> 'f attrs) \<Rightarrow> 'f eitem \<Rightarrow> error + 'f eitem" where
  "set_attr g item = (if item = PyNone then Inl AttributeError else Inr (map_attrs g item))"

text \<open>
  \<^verbatim>\<open>es_item_factory.build(cls, items)\<close> on the outcome of the list comprehension that
  visits the children: the exception of the comprehension, or the built item.
\<close>

definition build :: "('a \<Rightarrow> 'f attrs \<Rightarrow> 'f eitem) \<Rightarrow> error + 'a \<Rightarrow> error + 'f eitem" where
  "build cls r = (case r of Inl e \<Rightarrow> Inl e | Inr items \<Rightarrow> Inr (cls items no_attrs))"

lemma size_simplify_if_same:
  "size_list size (simplify_if_same cs current_node) \<le> size_list size cs"
proof (induction cs current_node rule: simplify_if_same.induct)
  case (1 current_node)
  show ?case by simp
next
  case (2 child rest current_node)
  have "size_list size (children child) \<le> size child" by (rule size_children)
  with 2 show ?case by auto
qed

lemma size_yield_nested_children:
  "size_list (case_sum (\<lambda>e. 0) size) (yield_nested_children h b parent cs)
     \<le> size_list size cs"
  by (induction cs) simp_all

text \<open>
  \<^verbatim>\<open>visit\<close> dispatches on the class of the node to the \<^verbatim>\<open>visit_...\<close> method of that
  name (the dispatcher of \<^verbatim>\<open>LuceneTreeVisitorV2\<close> is absent; every node kind has its
  method here). Each equation is one method, with \<^verbatim>\<open>_binary_operation\<close>,
  \<^verbatim>\<open>_must_operation\<close> and \<^verbatim>\<open>_should_operation\<close> unfolded. The \<^verbatim>\<open>parents\<close> argument is
  handed down and never read, so it is left out. \<open>visit_items\<close> is the list
  comprehension \<^verbatim>\<open>[self.visit(child, ...) for child in children]\<close> over a generator: it
  stops at the first exception, of the generator or of a visit.
\<close>

function visit :: "('d, 'f) host \<Rightarrow> builder \<Rightarrow> 'd node \<Rightarrow> error + 'f eitem"
  and visit_items :: "('d, 'f) host \<Rightarrow> builder \<Rightarrow> (error + 'd node) list \<Rightarrow> error + 'f eitem list"
  where
  "visit h b (Word v) =
     Inr (EWord v (default_field b) (leaf_fields h (Some (default_field b))) no_attrs)"
| "visit h b (Phrase v) =
     Inr (EPhrase v (default_field b) (leaf_fields h (Some (default_field b))) no_attrs)"
| "visit h b (Range lo hi include_low include_high) =
     Inr (ERange [(if include_low then ''gte'' else ''gt'', lo),
                  (if include_high then ''lte'' else ''lt'', hi)]
            (leaf_fields h None) no_attrs)"
| "visit h b (AndOperation cs) =
     build EMust (visit_items h b
       (yield_nested_children h b (AndOperation cs)
          (simplify_if_same cs (AndOperation cs))))"
| "visit h b (OrOperation cs) =
     build EShould (visit_items h b
       (yield_nested_children h b (OrOperation cs)
          (simplify_if_same cs (OrOperation cs))))"
| "visit h b (UnknownOperation cs) =
     (if default_operator b = SHOULD
      then build EShould (visit_items h b
             (yield_nested_children h b (UnknownOperation cs)
                (simplify_if_same cs (UnknownOperation cs))))
      else if default_operator b = MUST
      then build EMust (visit_items h b
             (yield_nested_children h b (UnknownOperation cs)
                (simplify_if_same cs (UnknownOperation cs))))
      else Inr PyNone)"
| "visit h b (Not a) =
     build EMustNot (visit_items h b (map Inr (simplify_if_same [a] (Not a))))"
| "visit h b (Prohibit a) =
     build EMustNot (visit_items h b (map Inr (simplify_if_same [a] (Prohibit a))))"
| "visit h b (Plus a) =
     build EMust (visit_items h b
       (yield_nested_children h b (Plus a) (simplify_if_same [a] (Plus a))))"
| "visit h b (Boost a force) =
     (case visit h b a of
        Inl e \<Rightarrow> Inl e
      | Inr eword \<Rightarrow> set_attr (\<lambda>x. x\<lparr>boost := Some (float_of h force)\<rparr>) eword)"
| "visit h b (Fuzzy a degree) =
     (case visit h b a of
        Inl e \<Rightarrow> Inl e
      | Inr eword \<Rightarrow> set_attr (\<lambda>x. x\<lparr>fuzziness := Some (float_of h degree)\<rparr>) eword)"
| "visit h b (Proximity a degree) =
     (case visit h b a of
        Inl e \<Rightarrow> Inl e
      | Inr ephrase \<Rightarrow> set_attr (\<lambda>x. x\<lparr>slop := Some (float_of h degree)\<rparr>) ephrase)"
| "visit h b (Group a) = visit h b a"
| "visit h b (FieldGroup a) = visit h b a"
| "visit h b (SearchField name a) =
     (case visit h b a of
        Inl e \<Rightarrow> Inl e
      | Inr enode \<Rightarrow>
          (if is_nested (SearchField name a)
           then (case set_search_field_in_all_children enode name of
                   Inl e \<Rightarrow> Inl e
                 | Inr inner \<Rightarrow> Inr (ENested name inner no_attrs))
           else set_search_field_in_all_children enode name))"
| "visit_items h b [] = Inr []"
| "visit_items h b (Inl e # rest) = Inl e"
| "visit_items h b (Inr child # rest) =
     (case visit h b child of
        Inl e \<Rightarrow> Inl e
      | Inr item \<Rightarrow>
          (case visit_items h b rest of
             Inl e \<Rightarrow> Inl e
           | Inr items \<Rightarrow> Inr (item # items)))"
  by pat_completeness auto
termination
proof (relation "measure (\<lambda>x. case x of
          Inl (h, b, n) \<Rightarrow> 2 * size n + 1
        | Inr (h, b, xs) \<Rightarrow> 2 * size_list (case_sum (\<lambda>e. 0) size) xs)", goal_cases)
  case 1
  show ?case by simp
next
  case (2 h b cs)
  have "size_list (case_sum (\<lambda>e. 0) size)
          (yield_nested_children h b (AndOperation cs) (simplify_if_same cs (AndOperation cs)))
        \<le> size_list size cs"
    using size_yield_nested_children size_simplify_if_same by (rule order_trans)
  then show ?case by simp
next
  case (3 h b cs)
  have "size_list (case_sum (\<lambda>e. 0) size)
          (yield_nested_children h b (OrOperation cs) (simplify_if_same cs (OrOperation cs)))
        \<le> size_list size cs"
    using size_yield_nested_children size_simplify_if_same by (rule order_trans)
  then show ?case by simp
next
  case (4 h b cs)
  have "size_list (case_sum (\<lambda>e. 0) size)
          (yield_nested_children h b (UnknownOperation cs)
             (simplify_if_same cs (UnknownOperation cs)))
        \<le> size_list size cs"
    using size_yield_nested_children size_simplify_if_same by (rule order_trans)
  then show ?case by simp
next
  case (5 h b cs)
  have "size_list (case_sum (\<lambda>e. 0) size)
          (yield_nested_children h b (UnknownOperation cs)
             (simplify_if_same cs (UnknownOperation cs)))
        \<le> size_list size cs"
    using size_yield_nested_children size_simplify_if_same by (rule order_trans)
  then show ?case by simp
next
  case (6 h b a)
  have "size_list size (simplify_if_same [a] (Not a)) \<le> size_list size [a]"
    by (rule size_simplify_if_same)
  then show ?case by (simp add: size_list_map comp_def)
next
  case (7 h b a)
  have "size_list size (simplify_if_same [a] (Prohibit a)) \<le> size_list size [a]"
    by (rule size_simplify_if_same)
  then show ?case by (simp add: size_list_map comp_def)
next
  case (8 h b a)
  have "size_list (case_sum (\<lambda>e. 0) size)
          (yield_nested_children h b (Plus a) (simplify_if_same [a] (Plus a)))
        \<le> size_list size [a]"
    using size_yield_nested_children size_simplify_if_same by (rule order_trans)
  then show ?case by simp
qed simp_all

text \<open>
  \<^verbatim>\<open>__init__\<close>: the builder keeps the default operator and the default field as given;
  nothing checks that the operator is one of the two constants.
\<close>

definition builder_init :: "string \<Rightarrow> string \<Rightarrow> builder" where
  "builder_init operator field = \<lparr>default_operator = operator, default_field = field\<rparr>"

section \<open>Notions of the specification\<close>

text \<open>
  The boolean kind of a node, in the specification's words: an \<^verbatim>\<open>AndOperation\<close> is of the
  Must kind, an \<^verbatim>\<open>OrOperation\<close> of the Should kind, an \<^verbatim>\<open>UnknownOperation\<close> of the kind
  the default operator names, any other node of neither.
\<close>

datatype bool_kind = MustKind | ShouldKind

fun kind_of :: "builder \<Rightarrow> 'd node \<Rightarrow> bool_kind option" where
  "kind_of b (AndOperation cs) = Some MustKind"
| "kind_of b (OrOperation cs) = Some ShouldKind"
| "kind_of b (UnknownOperation cs) =
     (if default_operator b = MUST then Some MustKind
      else if default_operator b = SHOULD then Some ShouldKind else None)"
| "kind_of b n = None"

definition opposite_kind :: "builder \<Rightarrow> 'd node \<Rightarrow> 'd node \<Rightarrow> bool" where
  "opposite_kind b parent child =
     (kind_of b parent = Some MustKind \<and> kind_of b child = Some ShouldKind \<or>
      kind_of b parent = Some ShouldKind \<and> kind_of b child = Some MustKind)"


text \<open>A node with everything below it, and whether a search field stands strictly below.\<close>

fun subtrees :: "'d node \<Rightarrow> 'd node list" where
  "subtrees (Word v) = [Word v]"
| "subtrees (Phrase v) = [Phrase v]"
| "subtrees (Range lo hi il ih) = [Range lo hi il ih]"
| "subtrees (AndOperation cs) = AndOperation cs # concat (map subtrees cs)"
| "subtrees (OrOperation cs) = OrOperation cs # concat (map subtrees cs)"
| "subtrees (UnknownOperation cs) = UnknownOperation cs # concat (map subtrees cs)"
| "subtrees (Not a) = Not a # subtrees a"
| "subtrees (Prohibit a) = Prohibit a # subtrees a"
| "subtrees (Plus a) = Plus a # subtrees a"
| "subtrees (Boost a f) = Boost a f # subtrees a"
| "subtrees (Fuzzy a d) = Fuzzy a d # subtrees a"
| "subtrees (Proximity a d) = Proximity a d # subtrees a"
| "subtrees (Group a) = Group a # subtrees a"
| "subtrees (FieldGroup a) = FieldGroup a # subtrees a"
| "subtrees (SearchField nm a) = SearchField nm a # subtrees a"

definition search_field_below :: "'d node \<Rightarrow> bool" where
  "search_field_below n =
     list_ex (\<lambda>c. list_ex (\<lambda>d. type_of d = TSearchField) (subtrees c)) (children n)"


text \<open>
  Reading an item: its three slots, the item with the three slots emptied, its list of
  items, its constructor.
\<close>

fun attrs_of :: "'f eitem \<Rightarrow> 'f attrs" where
  "attrs_of (EWord q df fs a) = a"
| "attrs_of (EPhrase q df fs a) = a"
| "attrs_of (ERange kw fs a) = a"
| "attrs_of (EMust items a) = a"
| "attrs_of (EShould items a) = a"
| "attrs_of (EMustNot items a) = a"
| "attrs_of (ENested path item a) = a"
| "attrs_of PyNone = no_attrs"

fun strip_attrs :: "'f eitem \<Rightarrow> 'f eitem" where
  "strip_attrs (EWord q df fs a) = EWord q df fs no_attrs"
| "strip_attrs (EPhrase q df fs a) = EPhrase q df fs no_attrs"
| "strip_attrs (ERange kw fs a) = ERange kw fs no_attrs"
| "strip_attrs (EMust items a) = EMust items no_attrs"
| "strip_attrs (EShould items a) = EShould items no_attrs"
| "strip_attrs (EMustNot items a) = EMustNot items no_attrs"
| "strip_attrs (ENested path item a) = ENested path item no_attrs"
| "strip_attrs PyNone = PyNone"


datatype item_kind = KWord | KPhrase | KRange | KMust | KShould | KMustNot | KNested | KNone

fun kind_of_item :: "'f eitem \<Rightarrow> item_kind" where
  "kind_of_item (EWord q df fs a) = KWord"
| "kind_of_item (EPhrase q df fs a) = KPhrase"
| "kind_of_item (ERange kw fs a) = KRange"
| "kind_of_item (EMust items a) = KMust"
| "kind_of_item (EShould items a) = KShould"
| "kind_of_item (EMustNot items a) = KMustNot"
| "kind_of_item (ENested path item a) = KNested"
| "kind_of_item PyNone = KNone"

text \<open>No \<^verbatim>\<open>None\<close> anywhere in an item.\<close>

fun none_free :: "'f eitem \<Rightarrow> bool" where
  "none_free (EWord q df fs a) = True"
| "none_free (EPhrase q df fs a) = True"
| "none_free (ERange kw fs a) = True"
| "none_free (EMust items a) = list_all none_free items"
| "none_free (EShould items a) = list_all none_free items"
| "none_free (EMustNot items a) = list_all none_free items"
| "none_free (ENested path item a) = none_free item"
| "none_free PyNone = False"

text \<open>No \<^verbatim>\<open>ENested\<close> anywhere in an item.\<close>

fun unnested :: "'f eitem \<Rightarrow> bool" where
  "unnested (EWord q df fs a) = True"
| "unnested (EPhrase q df fs a) = True"
| "unnested (ERange kw fs a) = True"
| "unnested (EMust items a) = list_all unnested items"
| "unnested (EShould items a) = list_all unnested items"
| "unnested (EMustNot items a) = list_all unnested items"
| "unnested (ENested path item a) = False"
| "unnested PyNone = True"

text \<open>
  The \<^verbatim>\<open>fields\<close> sequences of the leaves of an item, left to right, and the item with
  every such sequence emptied: what the field scoping changes, and what it leaves.
\<close>

fun all_fields :: "'f eitem \<Rightarrow> string list list" where
  "all_fields (EWord q df fs a) = [fs]"
| "all_fields (EPhrase q df fs a) = [fs]"
| "all_fields (ERange kw fs a) = [fs]"
| "all_fields (EMust items a) = concat (map all_fields items)"
| "all_fields (EShould items a) = concat (map all_fields items)"
| "all_fields (EMustNot items a) = concat (map all_fields items)"
| "all_fields (ENested path item a) = all_fields item"
| "all_fields PyNone = []"

fun clear_fields :: "'f eitem \<Rightarrow> 'f eitem" where
  "clear_fields (EWord q df fs a) = EWord q df [] a"
| "clear_fields (EPhrase q df fs a) = EPhrase q df [] a"
| "clear_fields (ERange kw fs a) = ERange kw [] a"
| "clear_fields (EMust items a) = EMust (map clear_fields items) a"
| "clear_fields (EShould items a) = EShould (map clear_fields items) a"
| "clear_fields (EMustNot items a) = EMustNot (map clear_fields items) a"
| "clear_fields (ENested path item a) = ENested path (clear_fields item) a"
| "clear_fields PyNone = PyNone"

fun join :: "string \<Rightarrow> string list \<Rightarrow> string" where
  "join sep [] = []"
| "join sep [x] = x"
| "join sep (x # y # rest) = x @ sep @ join sep (y # rest)"

text \<open>
  The flattening invariant of the specification: no \<^verbatim>\<open>EMust\<close> directly holds an
  \<^verbatim>\<open>EMust\<close>, no \<^verbatim>\<open>EShould\<close> directly holds an \<^verbatim>\<open>EShould\<close>, anywhere in the item.
\<close>

fun flat_item :: "'f eitem \<Rightarrow> bool" where
  "flat_item (EMust items a) = list_all (\<lambda>i. kind_of_item i \<noteq> KMust \<and> flat_item i) items"
| "flat_item (EShould items a) = list_all (\<lambda>i. kind_of_item i \<noteq> KShould \<and> flat_item i) items"
| "flat_item (EMustNot items a) = list_all flat_item items"
| "flat_item (ENested path item a) = flat_item item"
| "flat_item e = True"

text \<open>The constructor of the item a node compiles to, read off the node.\<close>

fun compiles_to :: "builder \<Rightarrow> 'd node \<Rightarrow> item_kind" where
  "compiles_to b (Word v) = KWord"
| "compiles_to b (Phrase v) = KPhrase"
| "compiles_to b (Range lo hi il ih) = KRange"
| "compiles_to b (AndOperation cs) = KMust"
| "compiles_to b (OrOperation cs) = KShould"
| "compiles_to b (UnknownOperation cs) =
     (if default_operator b = SHOULD then KShould
      else if default_operator b = MUST then KMust else KNone)"
| "compiles_to b (Not a) = KMustNot"
| "compiles_to b (Prohibit a) = KMustNot"
| "compiles_to b (Plus a) = KMust"
| "compiles_to b (Boost a f) = compiles_to b a"
| "compiles_to b (Fuzzy a d) = compiles_to b a"
| "compiles_to b (Proximity a d) = compiles_to b a"
| "compiles_to b (Group a) = compiles_to b a"
| "compiles_to b (FieldGroup a) = compiles_to b a"
| "compiles_to b (SearchField nm a) =
     (if is_nested (SearchField nm a) then KNested else compiles_to b a)"

text \<open>
  A tree in which no operand of an \<^verbatim>\<open>AndOperation\<close>, \<^verbatim>\<open>OrOperation\<close>,
  \<^verbatim>\<open>UnknownOperation\<close> or \<^verbatim>\<open>Plus\<close> is a node of another class that compiles to the
  constructor its parent compiles to.
\<close>

fun separated :: "builder \<Rightarrow> 'd node \<Rightarrow> bool" where
  "separated b (Word v) = True"
| "separated b (Phrase v) = True"
| "separated b (Range lo hi il ih) = True"
| "separated b (AndOperation cs) =
     list_all (\<lambda>c. (type_of c = TAndOperation \<or> compiles_to b c \<noteq> KMust) \<and> separated b c) cs"
| "separated b (OrOperation cs) =
     list_all (\<lambda>c. (type_of c = TOrOperation \<or> compiles_to b c \<noteq> KShould) \<and> separated b c) cs"
| "separated b (UnknownOperation cs) =
     list_all (\<lambda>c. (type_of c = TUnknownOperation \<or>
                     compiles_to b c \<noteq> compiles_to b (UnknownOperation cs)) \<and>
                    separated b c) cs"
| "separated b (Not a) = separated b a"
| "separated b (Prohibit a) = separated b a"
| "separated b (Plus a) = ((type_of a = TPlus \<or> compiles_to b a \<noteq> KMust) \<and> separated b a)"
| "separated b (Boost a f) = separated b a"
| "separated b (Fuzzy a d) = separated b a"
| "separated b (Proximity a d) = separated b a"
| "separated b (Group a) = separated b a"
| "separated b (FieldGroup a) = separated b a"
| "separated b (SearchField nm a) = separated b a"

section \<open>An instance for the worked examples\<close>

text \<open>
  A host for the examples: the text of a node as its operands joined by the operator
  word, \<^verbatim>\<open>float\<close> of an integral decimal, and leaves that start with no field segment.
\<close>

fun example_str :: "int node \<Rightarrow> string" where
  "example_str (Word v) = v"
| "example_str (Phrase v) = v"
| "example_str (AndOperation cs) = join '' AND '' (map example_str cs)"
| "example_str (OrOperation cs) = join '' OR '' (map example_str cs)"
| "example_str (UnknownOperation cs) = join '' '' (map example_str cs)"
| "example_str (Group a) = ''('' @ example_str a @ '')''"
| "example_str n = []"

definition example_host :: "(int, real) host" where
  "example_host =
     \<lparr>str_of = example_str, float_of = real_of_int, leaf_fields = (\<lambda>d. [])\<rparr>"

section \<open>The flattening of same-class operands\<close>

lemma simplify_if_same_type:
  "type_of p = type_of p' \<Longrightarrow> simplify_if_same cs p = simplify_if_same cs p'"
  by (induction cs p rule: simplify_if_same.induct) simp_all

lemma simplify_if_same_append:
  "simplify_if_same (xs @ ys) p = simplify_if_same xs p @ simplify_if_same ys p"
  by (induction xs) simp_all

lemma simplify_if_same_other:
  "x \<in> set (simplify_if_same cs p) \<Longrightarrow> type_of x \<noteq> type_of p"
  by (induction cs p rule: simplify_if_same.induct) (auto split: if_splits)

lemma simplify_if_same_id:
  "\<forall>c\<in>set cs. type_of c \<noteq> type_of p \<Longrightarrow> simplify_if_same cs p = cs"
  by (induction cs) simp_all

section \<open>The nesting test on the node kinds\<close>

lemma is_nested_Range [simp]: "\<not> is_nested (Range lo hi il ih)"
  by (simp add: is_nested.simps [of "Range lo hi il ih"])

lemma is_nested_Word [simp]: "\<not> is_nested (Word v)"
  by (simp add: is_nested.simps [of "Word v"])

lemma is_nested_Phrase [simp]: "\<not> is_nested (Phrase v)"
  by (simp add: is_nested.simps [of "Phrase v"])

lemma is_nested_SearchField [simp]:
  "is_nested (SearchField nm a) = (type_of a = TSearchField \<or> is_nested a)"
  by (simp add: is_nested.simps [of "SearchField nm a"])

lemma is_nested_FieldGroup [simp]:
  "is_nested (FieldGroup a) = (type_of a = TSearchField \<or> is_nested a)"
  by (simp add: is_nested.simps [of "FieldGroup a"])

lemma is_nested_operation [simp]:
  "is_nested (AndOperation cs) = list_ex (\<lambda>c. type_of c = TSearchField \<or> is_nested c) cs"
  "is_nested (OrOperation cs) = list_ex (\<lambda>c. type_of c = TSearchField \<or> is_nested c) cs"
  "is_nested (UnknownOperation cs) = list_ex (\<lambda>c. type_of c = TSearchField \<or> is_nested c) cs"
  by (simp_all add: is_nested.simps [of "AndOperation cs"] is_nested.simps [of "OrOperation cs"]
      is_nested.simps [of "UnknownOperation cs"])

lemma is_nested_unary [simp]:
  "is_nested (Not a) = (type_of a = TSearchField \<or> is_nested a)"
  "is_nested (Prohibit a) = (type_of a = TSearchField \<or> is_nested a)"
  "is_nested (Plus a) = (type_of a = TSearchField \<or> is_nested a)"
  "is_nested (Group a) = (type_of a = TSearchField \<or> is_nested a)"
  "is_nested (Boost a d) = (type_of a = TSearchField \<or> is_nested a)"
  "is_nested (Fuzzy a d) = (type_of a = TSearchField \<or> is_nested a)"
  "is_nested (Proximity a d) = (type_of a = TSearchField \<or> is_nested a)"
  by (simp_all add: is_nested.simps [of "Not a"] is_nested.simps [of "Prohibit a"]
      is_nested.simps [of "Plus a"] is_nested.simps [of "Group a"]
      is_nested.simps [of "Boost a d"] is_nested.simps [of "Fuzzy a d"]
      is_nested.simps [of "Proximity a d"])

section \<open>The list comprehension over the checked operands\<close>

lemma visit_items_map_Inr:
  "visit_items h b (map Inr ns) = Inr items \<longleftrightarrow>
     list_all2 (\<lambda>n i. visit h b n = Inr i) ns items"
proof (induction ns arbitrary: items)
  case Nil
  show ?case by auto
next
  case (Cons n ns)
  have "visit_items h b (map Inr (n # ns)) = Inr items \<longleftrightarrow>
      (\<exists>i rest. items = i # rest \<and> visit h b n = Inr i \<and>
         visit_items h b (map Inr ns) = Inr rest)"
    by (auto split: sum.splits)
  also have "\<dots> \<longleftrightarrow> (\<exists>i rest. items = i # rest \<and> visit h b n = Inr i \<and>
         list_all2 (\<lambda>n i. visit h b n = Inr i) ns rest)"
    by (simp add: Cons.IH)
  also have "\<dots> \<longleftrightarrow> list_all2 (\<lambda>n i. visit h b n = Inr i) (n # ns) items"
    by (auto simp: list_all2_Cons1)
  finally show ?case .
qed

lemma yield_nested_children_cong:
  "is_must b p = is_must b p' \<Longrightarrow> is_should b p = is_should b p' \<Longrightarrow>
   yield_nested_children h b p cs = yield_nested_children h b p' cs"
  by (induction cs) simp_all

lemma yield_nested_children_clear:
  "\<forall>c\<in>set cs. \<not> (is_should b p \<and> is_must b c \<or> is_must b p \<and> is_should b c) \<Longrightarrow>
   yield_nested_children h b p cs = map Inr cs"
  by (induction cs) simp_all

lemma operands_raise:
  assumes "\<exists>c\<in>set cs. is_should b p \<and> is_must b c \<or> is_must b p \<and> is_should b c"
  shows "\<exists>e. visit_items h b (yield_nested_children h b p cs) = Inl e"
  using assms
proof (induction cs)
  case Nil
  then show ?case by simp
next
  case (Cons c cs)
  show ?case
  proof (cases "is_should b p \<and> is_must b c \<or> is_must b p \<and> is_should b c")
    case True
    then show ?thesis by simp
  next
    case False
    with Cons.prems
    have "\<exists>c\<in>set cs. is_should b p \<and> is_must b c \<or> is_must b p \<and> is_should b c"
      by auto
    then obtain e where "visit_items h b (yield_nested_children h b p cs) = Inl e"
      using Cons.IH by blast
    with False show ?thesis by (cases "visit h b c") simp_all
  qed
qed

lemma operands_Inr_iff:
  "visit_items h b (yield_nested_children h b p cs) = Inr items \<longleftrightarrow>
     (\<forall>c\<in>set cs. \<not> (is_should b p \<and> is_must b c \<or> is_must b p \<and> is_should b c)) \<and>
     list_all2 (\<lambda>n i. visit h b n = Inr i) cs items"
proof (cases "\<forall>c\<in>set cs. \<not> (is_should b p \<and> is_must b c \<or> is_must b p \<and> is_should b c)")
  case True
  then show ?thesis
    by (simp add: yield_nested_children_clear visit_items_map_Inr)
next
  case False
  then have "\<exists>e. visit_items h b (yield_nested_children h b p cs) = Inl e"
    by (intro operands_raise) blast
  with False show ?thesis by auto
qed

lemma operands_insert:
  assumes ok: "visit_items h b (yield_nested_children h b p (simplify_if_same (pre @ post) p))
                 = Inr items"
    and other: "type_of x \<noteq> type_of p" and nm: "\<not> is_must b x" and ns: "\<not> is_should b x"
    and vx: "visit h b x = Inr i"
  shows "\<exists>is1 is2. items = is1 @ is2 \<and> length is1 = length (simplify_if_same pre p) \<and>
           visit_items h b (yield_nested_children h b p (simplify_if_same (pre @ x # post) p))
             = Inr (is1 @ i # is2)"
proof -
  let ?V = "\<lambda>n i. visit h b n = Inr i"
  let ?l1 = "simplify_if_same pre p" and ?l2 = "simplify_if_same post p"
  from ok have clear: "\<forall>c\<in>set (?l1 @ ?l2).
        \<not> (is_should b p \<and> is_must b c \<or> is_must b p \<and> is_should b c)"
    and all: "list_all2 ?V (?l1 @ ?l2) items"
    by (simp_all add: operands_Inr_iff simplify_if_same_append)
  from all obtain is1 is2 where split: "items = is1 @ is2" "length is1 = length ?l1"
    and a1: "list_all2 ?V ?l1 is1" and a2: "list_all2 ?V ?l2 is2"
    by (auto simp: list_all2_append1)
  have flat: "simplify_if_same (pre @ x # post) p = ?l1 @ x # ?l2"
    using other by (simp add: simplify_if_same_append)
  have "list_all2 ?V (?l1 @ x # ?l2) (is1 @ i # is2)"
    using a1 a2 vx by (simp add: list_all2_appendI)
  moreover have "\<forall>c\<in>set (?l1 @ x # ?l2).
        \<not> (is_should b p \<and> is_must b c \<or> is_must b p \<and> is_should b c)"
    using clear nm ns by auto
  ultimately have "visit_items h b (yield_nested_children h b p (?l1 @ x # ?l2))
      = Inr (is1 @ i # is2)"
    unfolding operands_Inr_iff by blast
  with split flat show ?thesis by auto
qed

lemma build_Inr_iff:
  "build cls r = Inr e \<longleftrightarrow> (\<exists>items. r = Inr items \<and> e = cls items no_attrs)"
  by (cases r) (auto simp: build_def)

lemma kind_of_must: "kind_of b n = Some MustKind \<longleftrightarrow> is_must b n"
  by (cases n) (simp_all add: is_must_def MUST_def SHOULD_def)

lemma kind_of_should: "kind_of b n = Some ShouldKind \<longleftrightarrow> is_should b n"
  by (cases n) (auto simp: is_should_def MUST_def SHOULD_def)

lemma opposite_kind_iff:
  "opposite_kind b p c \<longleftrightarrow>
     (is_should b p \<and> is_must b c \<or> is_must b p \<and> is_should b c)"
  by (auto simp: opposite_kind_def kind_of_must kind_of_should)

lemmas eval_defs = example_host_def builder_init_def build_def is_must_def is_should_def
  MUST_def SHOULD_def get_operator_extract_def py_slice_def

lemma and_operands:
  "visit h b (AndOperation cs) = Inr r \<longleftrightarrow>
     (\<exists>items. r = EMust items no_attrs \<and>
        (\<forall>c\<in>set (simplify_if_same cs (AndOperation cs)). \<not> is_should b c) \<and>
        list_all2 (\<lambda>n i. visit h b n = Inr i) (simplify_if_same cs (AndOperation cs)) items)"
  by (auto simp: build_Inr_iff operands_Inr_iff is_must_def is_should_def)

lemma or_operands:
  "visit h b (OrOperation cs) = Inr r \<longleftrightarrow>
     (\<exists>items. r = EShould items no_attrs \<and>
        (\<forall>c\<in>set (simplify_if_same cs (OrOperation cs)). \<not> is_must b c) \<and>
        list_all2 (\<lambda>n i. visit h b n = Inr i) (simplify_if_same cs (OrOperation cs)) items)"
  by (auto simp: build_Inr_iff operands_Inr_iff is_must_def is_should_def)

section \<open>Items without None or ENested, and the errors of a visit\<close>

lemma set_search_field_succeeds:
  fixes e :: "'f eitem" and es :: "'f eitem list"
  shows "none_free e \<Longrightarrow> unnested e \<Longrightarrow>
           \<exists>e'. set_search_field_in_all_children e nm = Inr e'"
    and "list_all none_free es \<Longrightarrow> list_all unnested es \<Longrightarrow>
           \<exists>es'. set_search_field_in_items es nm = Inr es'"
  by (induction e nm and es nm
      rule: set_search_field_in_all_children_set_search_field_in_items.induct) auto



lemma none_free_map_attrs [simp]: "none_free (map_attrs g e) = none_free e"
  by (cases e) simp_all

lemma unnested_map_attrs [simp]: "unnested (map_attrs g e) = unnested e"
  by (cases e) simp_all

lemma set_attr_Inr_iff:
  "set_attr g e = Inr e' \<longleftrightarrow> e \<noteq> PyNone \<and> e' = map_attrs g e"
  by (auto simp: set_attr_def)






lemma yield_nested_children_subset:
  "Inr x \<in> set (yield_nested_children h b p cs) \<Longrightarrow> x \<in> set cs"
  by (induction cs) (auto split: if_splits)















section \<open>The extract on the examples of the docstrings\<close>

lemma py_find_hit: "take (length sub) (c # s) = sub \<Longrightarrow> py_find (c # s) sub = 0"
  by simp

lemma py_find_miss:
  "take (length sub) (c # s) \<noteq> sub \<Longrightarrow> py_find s sub = int k \<Longrightarrow>
   py_find (c # s) sub = int (Suc k)"
  by (simp add: Let_def)


lemma example_extract_docstring:
  "get_operator_extract example_host (OrOperation [Word ''Python'', Word ''Monty'']) 3
     = Inr ''hon OR Mon''"
proof -
  have f: "py_find ''Python OR Monty'' ''Monty'' = int 10"
    by (simp only: numeral_eq_Suc pred_numeral_simps Suc_eq_plus1_left [symmetric])
       (intro py_find_miss py_find_hit; simp)
  have s: "example_str (OrOperation [Word ''Python'', Word ''Monty'']) = ''Python OR Monty''"
    by simp
  have l: "py_slice ''Python OR Monty'' 3 13 = ''hon OR Mon''"
    by (simp add: py_slice_def)
  from f l show ?thesis
    by (simp add: get_operator_extract_def example_host_def Let_def
        del: py_find.simps example_str.simps add: s example_str.simps(1))
qed

section \<open>The field scoping on items\<close>

lemma set_search_field_fields:
  fixes e :: "'f eitem" and es :: "'f eitem list"
  shows "set_search_field_in_all_children e nm = Inr e' \<Longrightarrow>
           all_fields e' = map ((#) nm) (all_fields e)"
    and "set_search_field_in_items es nm = Inr es' \<Longrightarrow>
           concat (map all_fields es') = map ((#) nm) (concat (map all_fields es))"
  by (induction e nm and es nm arbitrary: e' and es'
      rule: set_search_field_in_all_children_set_search_field_in_items.induct)
     (auto split: sum.splits)

lemma set_search_field_clear:
  fixes e :: "'f eitem" and es :: "'f eitem list"
  shows "set_search_field_in_all_children e nm = Inr e' \<Longrightarrow> clear_fields e' = clear_fields e"
    and "set_search_field_in_items es nm = Inr es' \<Longrightarrow>
           map clear_fields es' = map clear_fields es"
  by (induction e nm and es nm arbitrary: e' and es'
      rule: set_search_field_in_all_children_set_search_field_in_items.induct)
     (auto split: sum.splits)

lemma subtrees_search_field:
  "list_ex (\<lambda>d. type_of d = TSearchField) (subtrees c) \<longleftrightarrow>
     type_of c = TSearchField \<or>
     list_ex (\<lambda>c'. list_ex (\<lambda>d. type_of d = TSearchField) (subtrees c')) (children c)"
  by (cases c) (auto simp: list_ex_iff)

lemma is_nested_below: "is_nested n = search_field_below n"
proof (induction n rule: is_nested.induct)
  case (1 node)
  have "(type_of c = TSearchField \<or> is_nested c) =
        list_ex (\<lambda>d. type_of d = TSearchField) (subtrees c)"
    if "c \<in> set (children node)" for c
    using 1 [OF that] subtrees_search_field [of c]
    by (auto simp: search_field_below_def)
  then show ?case
    unfolding search_field_below_def is_nested.simps [of node]
    by (auto simp: list_ex_iff)
qed

section \<open>The constructor of a compiled item, and items without a composite in its like\<close>

lemma kind_map_attrs [simp]: "kind_of_item (map_attrs g e) = kind_of_item e"
  by (cases e) simp_all

lemma flat_map_attrs [simp]: "flat_item (map_attrs g e) = flat_item e"
  by (cases e) simp_all

lemma set_search_field_kind:
  "set_search_field_in_all_children e nm = Inr e' \<Longrightarrow> kind_of_item e' = kind_of_item e"
  by (cases e) (auto split: sum.splits)

lemma list_all2_transfer:
  "list_all2 R xs ys \<Longrightarrow> list_all P xs \<Longrightarrow> (\<And>x y. R x y \<Longrightarrow> P x \<Longrightarrow> Q y) \<Longrightarrow>
   list_all Q ys"
  by (induction rule: list_all2_induct) auto

lemma set_search_field_flat:
  fixes e :: "'f eitem" and es :: "'f eitem list"
  shows "set_search_field_in_all_children e nm = Inr e' \<Longrightarrow> flat_item e \<Longrightarrow> flat_item e'"
    and "set_search_field_in_items es nm = Inr es' \<Longrightarrow>
           list_all2 (\<lambda>x y. kind_of_item y = kind_of_item x \<and> (flat_item x \<longrightarrow> flat_item y)) es es'"
proof (induction e nm and es nm arbitrary: e' and es'
      rule: set_search_field_in_all_children_set_search_field_in_items.induct)
  case (4 items a field_name)
  then obtain items' where i: "set_search_field_in_items items field_name = Inr items'"
    and e: "e' = EMust items' a" by (auto split: sum.splits)
  from "4.prems"(2) have "list_all (\<lambda>i. kind_of_item i \<noteq> KMust \<and> flat_item i) items"
    by simp
  with "4.IH" [OF i] have "list_all (\<lambda>i. kind_of_item i \<noteq> KMust \<and> flat_item i) items'"
    by (rule list_all2_transfer) auto
  with e show ?case by simp
next
  case (5 items a field_name)
  then obtain items' where i: "set_search_field_in_items items field_name = Inr items'"
    and e: "e' = EShould items' a" by (auto split: sum.splits)
  from "5.prems"(2) have "list_all (\<lambda>i. kind_of_item i \<noteq> KShould \<and> flat_item i) items"
    by simp
  with "5.IH" [OF i] have "list_all (\<lambda>i. kind_of_item i \<noteq> KShould \<and> flat_item i) items'"
    by (rule list_all2_transfer) auto
  with e show ?case by simp
next
  case (6 items a field_name)
  then obtain items' where i: "set_search_field_in_items items field_name = Inr items'"
    and e: "e' = EMustNot items' a" by (auto split: sum.splits)
  from "6.prems"(2) have "list_all flat_item items"
    by simp
  with "6.IH" [OF i] have "list_all flat_item items'"
    by (rule list_all2_transfer) auto
  with e show ?case by simp
next
  case (10 item rest field_name)
  then show ?case
    by (auto split: sum.splits dest: set_search_field_kind)
qed auto

lemma visit_kind:
  fixes h :: "('d, 'f) host"
  shows "visit h b n = Inr e \<Longrightarrow> kind_of_item e = compiles_to b n"
    and "visit_items h b xs = Inr items \<Longrightarrow> length items = length xs"
proof (induction h b n and h b xs arbitrary: e and items rule: visit_visit_items.induct)
  case (15 h b name a)
  then show ?case
    by (auto split: sum.splits if_splits dest: set_search_field_kind)
qed (auto simp: build_Inr_iff set_attr_Inr_iff split: sum.splits if_splits)

lemma simplify_pred:
  assumes "list_all R cs"
    and "\<And>c. type_of c = type_of p \<Longrightarrow> R c \<Longrightarrow> list_all R (children c)"
  shows "list_all R (simplify_if_same cs p)"
  using assms by (induction cs p rule: simplify_if_same.induct) auto

lemma operands_flat:
  fixes h :: "('d, 'f) host" and p :: "'d node"
  assumes its: "list_all2 (\<lambda>n i. visit h b n = Inr i) (simplify_if_same cs p) items"
    and R: "list_all (\<lambda>c. (type_of c = type_of p \<or> compiles_to b c \<noteq> K) \<and> separated b c) cs"
    and her: "\<And>c :: 'd node. type_of c = type_of p \<Longrightarrow> separated b c \<Longrightarrow>
        list_all (\<lambda>c. (type_of c = type_of p \<or> compiles_to b c \<noteq> K) \<and> separated b c)
          (children c)"
    and IH: "\<forall>x\<in>set (simplify_if_same cs p). separated b x \<Longrightarrow> list_all flat_item items"
  shows "list_all (\<lambda>i. kind_of_item i \<noteq> K \<and> flat_item i) items"
proof -
  let ?R = "\<lambda>c. (type_of c = type_of p \<or> compiles_to b c \<noteq> K) \<and> separated b c"
  have "list_all ?R (simplify_if_same cs p)"
  proof (rule simplify_pred)
    show "list_all ?R cs" by (rule R)
  next
    fix c :: "'d node"
    assume "type_of c = type_of p" and "?R c"
    then show "list_all ?R (children c)" using her [of c] by simp
  qed
  then have el: "\<forall>x\<in>set (simplify_if_same cs p). compiles_to b x \<noteq> K \<and> separated b x"
    using simplify_if_same_other [of _ cs p] by (auto simp: list_all_iff)
  then have f: "list_all flat_item items" using IH by blast
  from el have "list_all (\<lambda>x. compiles_to b x \<noteq> K) (simplify_if_same cs p)"
    by (simp add: list_all_iff)
  with its have "list_all (\<lambda>i. kind_of_item i \<noteq> K) items"
    by (rule list_all2_transfer) (auto dest: visit_kind(1))
  with f show ?thesis by (simp add: list_all_iff)
qed

lemma visit_flat:
  fixes h :: "('d, 'f) host"
  shows "separated b n \<Longrightarrow> visit h b n = Inr e \<Longrightarrow> flat_item e"
    and "\<forall>x. Inr x \<in> set xs \<longrightarrow> separated b x \<Longrightarrow> visit_items h b xs = Inr items \<Longrightarrow>
         list_all flat_item items"
proof (induction h b n and h b xs arbitrary: e and items rule: visit_visit_items.induct)
  case (4 h b cs)
  let ?p = "AndOperation cs"
  from "4.prems"(2) obtain items where e: "e = EMust items no_attrs"
    and i: "visit_items h b (yield_nested_children h b ?p (simplify_if_same cs ?p)) = Inr items"
    by (auto simp: build_Inr_iff)
  have "list_all (\<lambda>i. kind_of_item i \<noteq> KMust \<and> flat_item i) items"
  proof (rule operands_flat [where p = ?p and cs = cs and h = h and b = b])
    show "list_all2 (\<lambda>n i. visit h b n = Inr i) (simplify_if_same cs ?p) items"
      using i by (simp add: operands_Inr_iff)
    show "list_all (\<lambda>c. (type_of c = type_of ?p \<or> compiles_to b c \<noteq> KMust) \<and> separated b c) cs"
      using "4.prems"(1) by simp
    show "list_all (\<lambda>c. (type_of c = type_of ?p \<or> compiles_to b c \<noteq> KMust) \<and> separated b c)
        (children c)" if "type_of c = type_of ?p" "separated b c" for c :: "'d node"
      using that by (cases c) simp_all
    show "list_all flat_item items" if "\<forall>x\<in>set (simplify_if_same cs ?p). separated b x"
      using that "4.IH" [OF _ i] yield_nested_children_subset by blast
  qed
  with e show ?case by simp
next
  case (5 h b cs)
  let ?p = "OrOperation cs"
  from "5.prems"(2) obtain items where e: "e = EShould items no_attrs"
    and i: "visit_items h b (yield_nested_children h b ?p (simplify_if_same cs ?p)) = Inr items"
    by (auto simp: build_Inr_iff)
  have "list_all (\<lambda>i. kind_of_item i \<noteq> KShould \<and> flat_item i) items"
  proof (rule operands_flat [where p = ?p and cs = cs and h = h and b = b])
    show "list_all2 (\<lambda>n i. visit h b n = Inr i) (simplify_if_same cs ?p) items"
      using i by (simp add: operands_Inr_iff)
    show "list_all (\<lambda>c. (type_of c = type_of ?p \<or> compiles_to b c \<noteq> KShould) \<and> separated b c) cs"
      using "5.prems"(1) by simp
    show "list_all (\<lambda>c. (type_of c = type_of ?p \<or> compiles_to b c \<noteq> KShould) \<and> separated b c)
        (children c)" if "type_of c = type_of ?p" "separated b c" for c :: "'d node"
      using that by (cases c) simp_all
    show "list_all flat_item items" if "\<forall>x\<in>set (simplify_if_same cs ?p). separated b x"
      using that "5.IH" [OF _ i] yield_nested_children_subset by blast
  qed
  with e show ?case by simp
next
  case (6 h b cs)
  consider (should) "default_operator b = SHOULD"
    | (must) "default_operator b \<noteq> SHOULD" "default_operator b = MUST"
    | (none) "default_operator b \<noteq> SHOULD" "default_operator b \<noteq> MUST"
    by blast
  then show ?case
  proof cases
    case should
    let ?p = "UnknownOperation cs"
    from "6.prems"(2) should obtain items where e: "e = EShould items no_attrs"
      and i: "visit_items h b (yield_nested_children h b ?p (simplify_if_same cs ?p)) = Inr items"
      by (auto simp: build_Inr_iff)
    have k: "compiles_to b (UnknownOperation xs) = KShould" for xs :: "'d node list"
      using should by (simp)
    have "list_all (\<lambda>i. kind_of_item i \<noteq> KShould \<and> flat_item i) items"
    proof (rule operands_flat [where p = ?p and cs = cs and h = h and b = b])
      show "list_all2 (\<lambda>n i. visit h b n = Inr i) (simplify_if_same cs ?p) items"
        using i by (simp add: operands_Inr_iff)
      show "list_all (\<lambda>c. (type_of c = type_of ?p \<or> compiles_to b c \<noteq> KShould) \<and> separated b c) cs"
        using "6.prems"(1) k [of cs] by simp
      show "list_all (\<lambda>c. (type_of c = type_of ?p \<or> compiles_to b c \<noteq> KShould) \<and> separated b c)
          (children c)" if "type_of c = type_of ?p" "separated b c" for c :: "'d node"
      proof (cases c)
        case (UnknownOperation xs)
        with that k [of xs] show ?thesis by simp
      qed (use that in simp_all)
      show "list_all flat_item items" if "\<forall>x\<in>set (simplify_if_same cs ?p). separated b x"
        using that "6.IH"(1) [OF should _ i] yield_nested_children_subset by blast
    qed
    with e show ?thesis by simp
  next
    case must
    let ?p = "UnknownOperation cs"
    from "6.prems"(2) must obtain items where e: "e = EMust items no_attrs"
      and i: "visit_items h b (yield_nested_children h b ?p (simplify_if_same cs ?p)) = Inr items"
      by (auto simp: build_Inr_iff)
    have k: "compiles_to b (UnknownOperation xs) = KMust" for xs :: "'d node list"
      using must by (simp add: MUST_def SHOULD_def)
    have "list_all (\<lambda>i. kind_of_item i \<noteq> KMust \<and> flat_item i) items"
    proof (rule operands_flat [where p = ?p and cs = cs and h = h and b = b])
      show "list_all2 (\<lambda>n i. visit h b n = Inr i) (simplify_if_same cs ?p) items"
        using i by (simp add: operands_Inr_iff)
      show "list_all (\<lambda>c. (type_of c = type_of ?p \<or> compiles_to b c \<noteq> KMust) \<and> separated b c) cs"
        using "6.prems"(1) k [of cs] by simp
      show "list_all (\<lambda>c. (type_of c = type_of ?p \<or> compiles_to b c \<noteq> KMust) \<and> separated b c)
          (children c)" if "type_of c = type_of ?p" "separated b c" for c :: "'d node"
      proof (cases c)
        case (UnknownOperation xs)
        with that k [of xs] show ?thesis by simp
      qed (use that in simp_all)
      show "list_all flat_item items" if "\<forall>x\<in>set (simplify_if_same cs ?p). separated b x"
        using that "6.IH"(2) [OF must _ i] yield_nested_children_subset by blast
    qed
    with e show ?thesis by simp
  next
    case none
    with "6.prems"(2) show ?thesis by auto
  qed
next
  case (7 h b a)
  have "list_all (separated b) (simplify_if_same [a] (Not a))"
  proof (rule simplify_pred)
    show "list_all (separated b) [a]" using "7.prems"(1) by simp
  next
    fix c :: "'d node"
    assume "type_of c = type_of (Not a)" and "separated b c"
    then show "list_all (separated b) (children c)" by (cases c) simp_all
  qed
  then have d: "\<forall>x. Inr x \<in> set (map Inr (simplify_if_same [a] (Not a))
      :: (error + 'd node) list) \<longrightarrow> separated b x"
    by (auto simp: list_all_iff simp del: simplify_if_same.simps)
  from "7.prems"(2) obtain items where
    i: "visit_items h b (map Inr (simplify_if_same [a] (Not a))) = Inr items"
    and e: "e = EMustNot items no_attrs"
    by (auto simp: build_Inr_iff simp del: simplify_if_same.simps)
  from "7.IH" [OF d i] e show ?case by simp
next
  case (8 h b a)
  have "list_all (separated b) (simplify_if_same [a] (Prohibit a))"
  proof (rule simplify_pred)
    show "list_all (separated b) [a]" using "8.prems"(1) by simp
  next
    fix c :: "'d node"
    assume "type_of c = type_of (Prohibit a)" and "separated b c"
    then show "list_all (separated b) (children c)" by (cases c) simp_all
  qed
  then have d: "\<forall>x. Inr x \<in> set (map Inr (simplify_if_same [a] (Prohibit a))
      :: (error + 'd node) list) \<longrightarrow> separated b x"
    by (auto simp: list_all_iff simp del: simplify_if_same.simps)
  from "8.prems"(2) obtain items where
    i: "visit_items h b (map Inr (simplify_if_same [a] (Prohibit a))) = Inr items"
    and e: "e = EMustNot items no_attrs"
    by (auto simp: build_Inr_iff simp del: simplify_if_same.simps)
  from "8.IH" [OF d i] e show ?case by simp
next
  case (9 h b a)
  let ?p = "Plus a"
  from "9.prems"(2) obtain items where e: "e = EMust items no_attrs"
    and i: "visit_items h b (yield_nested_children h b ?p (simplify_if_same [a] ?p)) = Inr items"
    by (auto simp: build_Inr_iff simp del: simplify_if_same.simps)
  have "list_all (\<lambda>i. kind_of_item i \<noteq> KMust \<and> flat_item i) items"
  proof (rule operands_flat [where p = ?p and cs = "[a]" and h = h and b = b])
    show "list_all2 (\<lambda>n i. visit h b n = Inr i) (simplify_if_same [a] ?p) items"
      using i by (simp add: operands_Inr_iff del: simplify_if_same.simps)
    show "list_all (\<lambda>c. (type_of c = type_of ?p \<or> compiles_to b c \<noteq> KMust) \<and> separated b c) [a]"
      using "9.prems"(1) by simp
    show "list_all (\<lambda>c. (type_of c = type_of ?p \<or> compiles_to b c \<noteq> KMust) \<and> separated b c)
        (children c)" if "type_of c = type_of ?p" "separated b c" for c :: "'d node"
      using that by (cases c) simp_all
    show "list_all flat_item items" if "\<forall>x\<in>set (simplify_if_same [a] ?p). separated b x"
      using that "9.IH" [OF _ i] yield_nested_children_subset by blast
  qed
  with e show ?case by simp
next
  case (15 h b name a)
  then show ?case
    by (auto split: sum.splits if_splits dest: set_search_field_flat(1)
        simp del: is_nested_SearchField)
next
  case (18 h b child rest)
  then show ?case by (auto split: sum.splits)
qed (auto simp: set_attr_Inr_iff split: sum.splits)

section \<open>Claims\<close>

text \<open>
  C9. With a default operator that is neither \<^verbatim>\<open>'should'\<close> nor \<^verbatim>\<open>'must'\<close>,
  \<^verbatim>\<open>visit_unknown_operation\<close> falls off its end: the visit of every
  \<^verbatim>\<open>UnknownOperation\<close> returns \<^verbatim>\<open>None\<close>, raising nothing and building no item.
\<close>

theorem visit_unknown_operation_none:
  "default_operator b \<noteq> SHOULD \<Longrightarrow> default_operator b \<noteq> MUST \<Longrightarrow>
   visit h b (UnknownOperation cs) = Inr PyNone"
  by simp

theorem visit_unknown_operation_none_witness:
  "default_operator (builder_init ''and'' ''text'') \<noteq> SHOULD \<and>
   default_operator (builder_init ''and'' ''text'') \<noteq> MUST \<and>
   visit example_host (builder_init ''and'' ''text'')
     (UnknownOperation [Word ''a'', Word ''b'']) = Inr PyNone"
proof -
  have s: "default_operator (builder_init ''and'' ''text'') \<noteq> SHOULD"
    by (simp add: builder_init_def SHOULD_def)
  have m: "default_operator (builder_init ''and'' ''text'') \<noteq> MUST"
    by (simp add: builder_init_def MUST_def)
  from visit_unknown_operation_none [OF s m] s m show ?thesis by blast
qed

text \<open>
  C7. The item of a range holds two bounds in this order: the low value under \<^verbatim>\<open>gte\<close>
  when \<^verbatim>\<open>include_low\<close> holds and under \<^verbatim>\<open>gt\<close> otherwise, the high value under
  \<^verbatim>\<open>lte\<close> when \<^verbatim>\<open>include_high\<close> holds and under \<^verbatim>\<open>lt\<close> otherwise; never both keys
  of a side. \<^verbatim>\<open>n:[1 TO 10]\<close> gives gte 1 and lte 10, \<^verbatim>\<open>n:{1 TO 10}\<close> gives gt 1 and
  lt 10.
\<close>

theorem visit_range_bounds:
  "(\<exists>kw fs a. visit h b (Range lo hi include_low include_high) = Inr (ERange kw fs a) \<and>
      map fst kw = [if include_low then ''gte'' else ''gt'',
                    if include_high then ''lte'' else ''lt''] \<and>
      map snd kw = [lo, hi] \<and>
      \<not> (''gte'' \<in> set (map fst kw) \<and> ''gt'' \<in> set (map fst kw)) \<and>
      \<not> (''lte'' \<in> set (map fst kw) \<and> ''lt'' \<in> set (map fst kw))) \<and>
   visit h b (SearchField ''n'' (Range ''1'' ''10'' True True)) =
     Inr (ERange [(''gte'', ''1''), (''lte'', ''10'')] (''n'' # leaf_fields h None) no_attrs) \<and>
   visit h b (SearchField ''n'' (Range ''1'' ''10'' False False)) =
     Inr (ERange [(''gt'', ''1''), (''lt'', ''10'')] (''n'' # leaf_fields h None) no_attrs)"
  by simp

text \<open>
  C3 (what the code does). \<^verbatim>\<open>visit_not\<close> passes the operand through
  \<^verbatim>\<open>simplify_if_same\<close>, so a \<^verbatim>\<open>Not\<close> directly under a \<^verbatim>\<open>Not\<close> is spliced away:
  \<^verbatim>\<open>NOT NOT A\<close> compiles to what \<^verbatim>\<open>NOT A\<close> compiles to, one \<^verbatim>\<open>EMustNot\<close> around the
  item of \<^verbatim>\<open>A\<close>, not two.
\<close>

theorem visit_not_not_collapsed:
  "visit h b (Not (Not a)) = visit h b (Not a) \<and>
   visit h b (Not (Not (Word v))) =
     Inr (EMustNot [EWord v (default_field b) (leaf_fields h (Some (default_field b))) no_attrs]
            no_attrs)"
proof -
  have "simplify_if_same cs (Not (Not a)) = simplify_if_same cs (Not a)" for cs
    by (rule simplify_if_same_type) simp
  then show ?thesis by (simp add: build_def)
qed

lemma item_determined:
  "attrs_of x = attrs_of y \<Longrightarrow> strip_attrs x = strip_attrs y \<Longrightarrow> x = y"
  by (cases x; cases y) simp_all

lemma set_attr_frame:
  assumes "e \<noteq> PyNone"
  shows "\<exists>e'. set_attr g e = Inr e' \<and> attrs_of e' = g (attrs_of e) \<and>
           strip_attrs e' = strip_attrs e"
  using assms by (cases e) (simp_all add: set_attr_def)

text \<open>
  C8. When the operand of a \<^verbatim>\<open>Boost\<close> compiles to an item, the \<^verbatim>\<open>Boost\<close> compiles to
  an item whose \<^verbatim>\<open>boost\<close> is the float of the force, whose two other slots are those of
  the operand's item, and which is the operand's item once the three slots are emptied
  on both: same constructor, same value, default field, fields, bounds, path and items.
  The slots and the emptied item determine an item. Likewise \<^verbatim>\<open>Fuzzy\<close> sets
  \<^verbatim>\<open>fuzziness\<close> and \<^verbatim>\<open>Proximity\<close> sets \<^verbatim>\<open>slop\<close> to the float of the degree.
\<close>

theorem visit_modifier_frame:
  assumes "visit h b a = Inr e" and "e \<noteq> PyNone"
  shows "(\<exists>e'. visit h b (Boost a force) = Inr e' \<and>
            attrs_of e' = (attrs_of e)\<lparr>boost := Some (float_of h force)\<rparr> \<and>
            strip_attrs e' = strip_attrs e) \<and>
         (\<exists>e'. visit h b (Fuzzy a degree) = Inr e' \<and>
            attrs_of e' = (attrs_of e)\<lparr>fuzziness := Some (float_of h degree)\<rparr> \<and>
            strip_attrs e' = strip_attrs e) \<and>
         (\<exists>e'. visit h b (Proximity a degree') = Inr e' \<and>
            attrs_of e' = (attrs_of e)\<lparr>slop := Some (float_of h degree')\<rparr> \<and>
            strip_attrs e' = strip_attrs e)"
  using assms set_attr_frame [OF assms(2)] by simp

theorem visit_modifier_frame_witness:
  "visit example_host (builder_init SHOULD ''text'') (Boost (Phrase ''Phoenix'') 4) =
     Inr (EPhrase ''Phoenix'' ''text'' [] (no_attrs\<lparr>boost := Some 4\<rparr>)) \<and>
   visit example_host (builder_init SHOULD ''text'') (Fuzzy (Word ''BB'') 1) =
     Inr (EWord ''BB'' ''text'' [] (no_attrs\<lparr>fuzziness := Some 1\<rparr>)) \<and>
   visit example_host (builder_init SHOULD ''text'') (Proximity (Phrase ''Harry Potter'') 6) =
     Inr (EPhrase ''Harry Potter'' ''text'' [] (no_attrs\<lparr>slop := Some 6\<rparr>)) \<and>
   visit example_host (builder_init SHOULD ''text'') (Boost (Range ''1'' ''10'' True False) 2) =
     Inr (ERange [(''gte'', ''1''), (''lt'', ''10'')] [] (no_attrs\<lparr>boost := Some 2\<rparr>)) \<and>
   visit example_host (builder_init SHOULD ''text'')
       (Boost (Group (AndOperation [Word ''a'', Word ''b''])) 2) =
     Inr (EMust [EWord ''a'' ''text'' [] no_attrs, EWord ''b'' ''text'' [] no_attrs]
            (no_attrs\<lparr>boost := Some 2\<rparr>))"
proof -
  let ?h = example_host and ?b = "builder_init SHOULD ''text''"
  have step: "visit ?h ?b (Boost a f) = Inr t \<and> visit ?h ?b (Fuzzy a f) = Inr u \<and>
      visit ?h ?b (Proximity a f) = Inr w"
    if v: "visit ?h ?b a = Inr e" and n: "e \<noteq> PyNone"
      and t: "attrs_of t = (attrs_of e)\<lparr>boost := Some (real_of_int f)\<rparr>"
             "strip_attrs t = strip_attrs e"
      and u: "attrs_of u = (attrs_of e)\<lparr>fuzziness := Some (real_of_int f)\<rparr>"
             "strip_attrs u = strip_attrs e"
      and w: "attrs_of w = (attrs_of e)\<lparr>slop := Some (real_of_int f)\<rparr>"
             "strip_attrs w = strip_attrs e"
    for a :: "int node" and e t u w :: "real eitem" and f
  proof -
    from visit_modifier_frame [OF v n, of f f f] obtain e1 e2 e3 where
      1: "visit ?h ?b (Boost a f) = Inr e1"
         "attrs_of e1 = (attrs_of e)\<lparr>boost := Some (float_of ?h f)\<rparr>"
         "strip_attrs e1 = strip_attrs e"
      and 2: "visit ?h ?b (Fuzzy a f) = Inr e2"
         "attrs_of e2 = (attrs_of e)\<lparr>fuzziness := Some (float_of ?h f)\<rparr>"
         "strip_attrs e2 = strip_attrs e"
      and 3: "visit ?h ?b (Proximity a f) = Inr e3"
         "attrs_of e3 = (attrs_of e)\<lparr>slop := Some (float_of ?h f)\<rparr>"
         "strip_attrs e3 = strip_attrs e"
      by blast
    have fl: "float_of ?h f = real_of_int f" by (simp add: example_host_def)
    have "attrs_of e1 = attrs_of t" and "strip_attrs e1 = strip_attrs t"
      by (simp_all only: 1(2,3) t fl)
    then have e1: "e1 = t" by (rule item_determined)
    have "attrs_of e2 = attrs_of u" and "strip_attrs e2 = strip_attrs u"
      by (simp_all only: 2(2,3) u fl)
    then have e2: "e2 = u" by (rule item_determined)
    have "attrs_of e3 = attrs_of w" and "strip_attrs e3 = strip_attrs w"
      by (simp_all only: 3(2,3) w fl)
    then have e3: "e3 = w" by (rule item_determined)
    from 1(1) 2(1) 3(1) show ?thesis unfolding e1 e2 e3 by blast
  qed
  have v1: "visit ?h ?b (Phrase ''Phoenix'') = Inr (EPhrase ''Phoenix'' ''text'' [] no_attrs)"
    and v2: "visit ?h ?b (Word ''BB'') = Inr (EWord ''BB'' ''text'' [] no_attrs)"
    and v3: "visit ?h ?b (Phrase ''Harry Potter'')
        = Inr (EPhrase ''Harry Potter'' ''text'' [] no_attrs)"
    and v4: "visit ?h ?b (Range ''1'' ''10'' True False)
        = Inr (ERange [(''gte'', ''1''), (''lt'', ''10'')] [] no_attrs)"
    and v5: "visit ?h ?b (Group (AndOperation [Word ''a'', Word ''b'']))
        = Inr (EMust [EWord ''a'' ''text'' [] no_attrs, EWord ''b'' ''text'' [] no_attrs] no_attrs)"
    by (simp_all add: example_host_def builder_init_def build_def is_must_def is_should_def
        MUST_def SHOULD_def)
  have 1: "visit ?h ?b (Boost (Phrase ''Phoenix'') 4) =
     Inr (EPhrase ''Phoenix'' ''text'' [] (no_attrs\<lparr>boost := Some 4\<rparr>))"
    using step [OF v1, of "EPhrase ''Phoenix'' ''text'' [] (no_attrs\<lparr>boost := Some 4\<rparr>)" 4
        "EPhrase ''Phoenix'' ''text'' [] (no_attrs\<lparr>fuzziness := Some 4\<rparr>)"
        "EPhrase ''Phoenix'' ''text'' [] (no_attrs\<lparr>slop := Some 4\<rparr>)"]
    by simp
  have 2: "visit ?h ?b (Fuzzy (Word ''BB'') 1) =
     Inr (EWord ''BB'' ''text'' [] (no_attrs\<lparr>fuzziness := Some 1\<rparr>))"
    using step [OF v2, of "EWord ''BB'' ''text'' [] (no_attrs\<lparr>boost := Some 1\<rparr>)" 1
        "EWord ''BB'' ''text'' [] (no_attrs\<lparr>fuzziness := Some 1\<rparr>)"
        "EWord ''BB'' ''text'' [] (no_attrs\<lparr>slop := Some 1\<rparr>)"]
    by simp
  have 3: "visit ?h ?b (Proximity (Phrase ''Harry Potter'') 6) =
     Inr (EPhrase ''Harry Potter'' ''text'' [] (no_attrs\<lparr>slop := Some 6\<rparr>))"
    using step [OF v3, of "EPhrase ''Harry Potter'' ''text'' [] (no_attrs\<lparr>boost := Some 6\<rparr>)" 6
        "EPhrase ''Harry Potter'' ''text'' [] (no_attrs\<lparr>fuzziness := Some 6\<rparr>)"
        "EPhrase ''Harry Potter'' ''text'' [] (no_attrs\<lparr>slop := Some 6\<rparr>)"]
    by simp
  have 4: "visit ?h ?b (Boost (Range ''1'' ''10'' True False) 2) =
     Inr (ERange [(''gte'', ''1''), (''lt'', ''10'')] [] (no_attrs\<lparr>boost := Some 2\<rparr>))"
    using step [OF v4, of
        "ERange [(''gte'', ''1''), (''lt'', ''10'')] [] (no_attrs\<lparr>boost := Some 2\<rparr>)" 2
        "ERange [(''gte'', ''1''), (''lt'', ''10'')] [] (no_attrs\<lparr>fuzziness := Some 2\<rparr>)"
        "ERange [(''gte'', ''1''), (''lt'', ''10'')] [] (no_attrs\<lparr>slop := Some 2\<rparr>)"]
    by simp
  have 5: "visit ?h ?b (Boost (Group (AndOperation [Word ''a'', Word ''b''])) 2) =
     Inr (EMust [EWord ''a'' ''text'' [] no_attrs, EWord ''b'' ''text'' [] no_attrs]
            (no_attrs\<lparr>boost := Some 2\<rparr>))"
    using step [OF v5, of
        "EMust [EWord ''a'' ''text'' [] no_attrs, EWord ''b'' ''text'' [] no_attrs]
            (no_attrs\<lparr>boost := Some 2\<rparr>)" 2
        "EMust [EWord ''a'' ''text'' [] no_attrs, EWord ''b'' ''text'' [] no_attrs]
            (no_attrs\<lparr>fuzziness := Some 2\<rparr>)"
        "EMust [EWord ''a'' ''text'' [] no_attrs, EWord ''b'' ''text'' [] no_attrs]
            (no_attrs\<lparr>slop := Some 2\<rparr>)"]
    by simp
  from 1 2 3 4 5 show ?thesis by (simp only:)
qed

text \<open>
  C6 (as amended). When no operand is itself an \<^verbatim>\<open>UnknownOperation\<close>, an
  \<^verbatim>\<open>UnknownOperation\<close> over the operands compiles to what the \<^verbatim>\<open>OrOperation\<close> over them
  compiles to under the default operator SHOULD, provided no operand is an
  \<^verbatim>\<open>OrOperation\<close> either, and to what the \<^verbatim>\<open>AndOperation\<close> over them compiles to under
  MUST, provided no operand is an \<^verbatim>\<open>AndOperation\<close>: the result or the exception is the
  same. With such an operand the two differ, since only operands of the parent's own
  class are spliced.
\<close>

theorem unknown_as_default:
  assumes "\<forall>c\<in>set cs. type_of c \<noteq> TUnknownOperation"
  shows "(default_operator b = SHOULD \<and> (\<forall>c\<in>set cs. type_of c \<noteq> TOrOperation) \<longrightarrow>
            visit h b (UnknownOperation cs) = visit h b (OrOperation cs)) \<and>
         (default_operator b = MUST \<and> (\<forall>c\<in>set cs. type_of c \<noteq> TAndOperation) \<longrightarrow>
            visit h b (UnknownOperation cs) = visit h b (AndOperation cs))"
proof (intro conjI impI)
  assume a: "default_operator b = SHOULD \<and> (\<forall>c\<in>set cs. type_of c \<noteq> TOrOperation)"
  have "simplify_if_same cs (UnknownOperation cs) = cs"
    and "simplify_if_same cs (OrOperation cs) = cs"
    using assms a by (simp_all add: simplify_if_same_id)
  moreover have "yield_nested_children h b (UnknownOperation cs) cs
      = yield_nested_children h b (OrOperation cs) cs"
    using a by (intro yield_nested_children_cong)
      (simp_all add: is_must_def is_should_def MUST_def SHOULD_def)
  ultimately show "visit h b (UnknownOperation cs) = visit h b (OrOperation cs)"
    using a by simp
next
  assume a: "default_operator b = MUST \<and> (\<forall>c\<in>set cs. type_of c \<noteq> TAndOperation)"
  have "simplify_if_same cs (UnknownOperation cs) = cs"
    and "simplify_if_same cs (AndOperation cs) = cs"
    using assms a by (simp_all add: simplify_if_same_id)
  moreover have "yield_nested_children h b (UnknownOperation cs) cs
      = yield_nested_children h b (AndOperation cs) cs"
    using a by (intro yield_nested_children_cong)
      (simp_all add: is_must_def is_should_def MUST_def SHOULD_def)
  ultimately show "visit h b (UnknownOperation cs) = visit h b (AndOperation cs)"
    using a by (simp add: MUST_def SHOULD_def)
qed

theorem unknown_as_default_witness:
  "visit example_host (builder_init SHOULD ''text'') (UnknownOperation [Word ''a'', Word ''b''])
     = visit example_host (builder_init SHOULD ''text'') (OrOperation [Word ''a'', Word ''b'']) \<and>
   visit example_host (builder_init MUST ''text'') (UnknownOperation [Word ''a'', Word ''b''])
     = visit example_host (builder_init MUST ''text'') (AndOperation [Word ''a'', Word ''b'']) \<and>
   visit example_host (builder_init SHOULD ''text'') (UnknownOperation [Word ''a'', Word ''b''])
     = Inr (EShould [EWord ''a'' ''text'' [] no_attrs, EWord ''b'' ''text'' [] no_attrs] no_attrs)"
proof -
  let ?cs = "[Word ''a'', Word ''b''] :: int node list"
  have u: "\<forall>c\<in>set ?cs. type_of c \<noteq> TUnknownOperation" by simp
  have s: "default_operator (builder_init SHOULD ''text'') = SHOULD \<and>
           (\<forall>c\<in>set ?cs. type_of c \<noteq> TOrOperation)"
    by (simp add: builder_init_def)
  have m: "default_operator (builder_init MUST ''text'') = MUST \<and>
           (\<forall>c\<in>set ?cs. type_of c \<noteq> TAndOperation)"
    by (simp add: builder_init_def)
  have v: "visit example_host (builder_init SHOULD ''text'') (OrOperation ?cs)
     = Inr (EShould [EWord ''a'' ''text'' [] no_attrs, EWord ''b'' ''text'' [] no_attrs] no_attrs)"
    by (simp add: eval_defs)
  from unknown_as_default [OF u, of "builder_init SHOULD ''text''" example_host] s
  have 1: "visit example_host (builder_init SHOULD ''text'') (UnknownOperation ?cs)
     = visit example_host (builder_init SHOULD ''text'') (OrOperation ?cs)" by blast
  from unknown_as_default [OF u, of "builder_init MUST ''text''" example_host] m
  have 2: "visit example_host (builder_init MUST ''text'') (UnknownOperation ?cs)
     = visit example_host (builder_init MUST ''text'') (AndOperation ?cs)" by blast
  from 1 2 v show ?thesis by (simp only:)
qed

theorem unknown_as_default_counterexample:
  "visit example_host (builder_init SHOULD ''text'')
     (UnknownOperation [UnknownOperation [Word ''a'', Word ''b''], Word ''c''])
   \<noteq> visit example_host (builder_init SHOULD ''text'')
     (OrOperation [UnknownOperation [Word ''a'', Word ''b''], Word ''c''])"
  by (simp add: eval_defs)

text \<open>
  C2 (as amended). The operands of an \<^verbatim>\<open>AndOperation\<close> that are themselves
  \<^verbatim>\<open>AndOperation\<close> nodes are replaced by their own operands, recursively and in place,
  before the visit: no \<^verbatim>\<open>AndOperation\<close> is left among the flattened operands, and the
  \<^verbatim>\<open>EMust\<close> holds the items of the flattened operands in their order. For operands A,
  B, C, D that are no \<^verbatim>\<open>AndOperation\<close> and not of the Should kind, the tree with an
  \<^verbatim>\<open>AndOperation\<close> directly under the other, And(A, And(B, And(C, D))), compiles to one
  \<^verbatim>\<open>EMust\<close> of the four items, and And(A, And(B, C)) and And(And(A, B), C) to the same
  \<^verbatim>\<open>EMust\<close> of three. Likewise for \<^verbatim>\<open>OrOperation\<close> and \<^verbatim>\<open>EShould\<close>. Only an operand
  of the parent's own class is spliced: the parentheses of a query are a \<^verbatim>\<open>Group\<close>
  node, which is kept, so A AND (B AND (C AND D)) as written compiles to an \<^verbatim>\<open>EMust\<close>
  in an \<^verbatim>\<open>EMust\<close> in an \<^verbatim>\<open>EMust\<close>, and the two parenthesised associations of three
  operands to different items.
\<close>

theorem flatten_same_operation:
  "(\<forall>x\<in>set (simplify_if_same cs (AndOperation cs)). type_of x \<noteq> TAndOperation) \<and>
   simplify_if_same (pre @ AndOperation xs # post) (AndOperation ys) =
     simplify_if_same pre (AndOperation ys) @ simplify_if_same xs (AndOperation ys) @
     simplify_if_same post (AndOperation ys) \<and>
   (visit h b (AndOperation cs) = Inr r \<longrightarrow>
      (\<exists>items. r = EMust items no_attrs \<and>
         list_all2 (\<lambda>n i. visit h b n = Inr i) (simplify_if_same cs (AndOperation cs)) items)) \<and>
   ((\<forall>x\<in>set [A, B, C, D]. type_of x \<noteq> TAndOperation \<and> kind_of b x \<noteq> Some ShouldKind) \<and>
    visit h b A = Inr A' \<and> visit h b B = Inr B' \<and> visit h b C = Inr C' \<and> visit h b D = Inr D' \<longrightarrow>
      visit h b (AndOperation [A, AndOperation [B, AndOperation [C, D]]])
        = Inr (EMust [A', B', C', D'] no_attrs) \<and>
      visit h b (AndOperation [A, AndOperation [B, C]]) = Inr (EMust [A', B', C'] no_attrs) \<and>
      visit h b (AndOperation [AndOperation [A, B], C]) = Inr (EMust [A', B', C'] no_attrs)) \<and>
   (\<forall>x\<in>set (simplify_if_same cs (OrOperation cs)). type_of x \<noteq> TOrOperation) \<and>
   simplify_if_same (pre @ OrOperation xs # post) (OrOperation ys) =
     simplify_if_same pre (OrOperation ys) @ simplify_if_same xs (OrOperation ys) @
     simplify_if_same post (OrOperation ys) \<and>
   (visit h b (OrOperation cs) = Inr r \<longrightarrow>
      (\<exists>items. r = EShould items no_attrs \<and>
         list_all2 (\<lambda>n i. visit h b n = Inr i) (simplify_if_same cs (OrOperation cs)) items)) \<and>
   ((\<forall>x\<in>set [A, B, C, D]. type_of x \<noteq> TOrOperation \<and> kind_of b x \<noteq> Some MustKind) \<and>
    visit h b A = Inr A' \<and> visit h b B = Inr B' \<and> visit h b C = Inr C' \<and> visit h b D = Inr D' \<longrightarrow>
      visit h b (OrOperation [A, OrOperation [B, OrOperation [C, D]]])
        = Inr (EShould [A', B', C', D'] no_attrs) \<and>
      visit h b (OrOperation [A, OrOperation [B, C]]) = Inr (EShould [A', B', C'] no_attrs) \<and>
      visit h b (OrOperation [OrOperation [A, B], C]) = Inr (EShould [A', B', C'] no_attrs))"
proof -
  have a1: "\<forall>x\<in>set (simplify_if_same cs (AndOperation cs)). type_of x \<noteq> TAndOperation"
    using simplify_if_same_other [of _ cs "AndOperation cs"] by auto
  have o1: "\<forall>x\<in>set (simplify_if_same cs (OrOperation cs)). type_of x \<noteq> TOrOperation"
    using simplify_if_same_other [of _ cs "OrOperation cs"] by auto
  have a2: "simplify_if_same (pre @ AndOperation xs # post) (AndOperation ys) =
     simplify_if_same pre (AndOperation ys) @ simplify_if_same xs (AndOperation ys) @
     simplify_if_same post (AndOperation ys)"
    by (simp add: simplify_if_same_append)
  have o2: "simplify_if_same (pre @ OrOperation xs # post) (OrOperation ys) =
     simplify_if_same pre (OrOperation ys) @ simplify_if_same xs (OrOperation ys) @
     simplify_if_same post (OrOperation ys)"
    by (simp add: simplify_if_same_append)
  have a3: "visit h b (AndOperation cs) = Inr r \<longrightarrow>
      (\<exists>items. r = EMust items no_attrs \<and>
         list_all2 (\<lambda>n i. visit h b n = Inr i) (simplify_if_same cs (AndOperation cs)) items)"
    unfolding and_operands by blast
  have o3: "visit h b (OrOperation cs) = Inr r \<longrightarrow>
      (\<exists>items. r = EShould items no_attrs \<and>
         list_all2 (\<lambda>n i. visit h b n = Inr i) (simplify_if_same cs (OrOperation cs)) items)"
    unfolding or_operands by blast
  have a4: "visit h b (AndOperation [A, AndOperation [B, AndOperation [C, D]]])
        = Inr (EMust [A', B', C', D'] no_attrs) \<and>
      visit h b (AndOperation [A, AndOperation [B, C]]) = Inr (EMust [A', B', C'] no_attrs) \<and>
      visit h b (AndOperation [AndOperation [A, B], C]) = Inr (EMust [A', B', C'] no_attrs)"
    if "\<forall>x\<in>set [A, B, C, D]. type_of x \<noteq> TAndOperation \<and> kind_of b x \<noteq> Some ShouldKind"
      and "visit h b A = Inr A'" "visit h b B = Inr B'" "visit h b C = Inr C'"
      "visit h b D = Inr D'"
    using that unfolding and_operands by (simp add: kind_of_should)
  have o4: "visit h b (OrOperation [A, OrOperation [B, OrOperation [C, D]]])
        = Inr (EShould [A', B', C', D'] no_attrs) \<and>
      visit h b (OrOperation [A, OrOperation [B, C]]) = Inr (EShould [A', B', C'] no_attrs) \<and>
      visit h b (OrOperation [OrOperation [A, B], C]) = Inr (EShould [A', B', C'] no_attrs)"
    if "\<forall>x\<in>set [A, B, C, D]. type_of x \<noteq> TOrOperation \<and> kind_of b x \<noteq> Some MustKind"
      and "visit h b A = Inr A'" "visit h b B = Inr B'" "visit h b C = Inr C'"
      "visit h b D = Inr D'"
    using that unfolding or_operands by (simp add: kind_of_must)
  from a1 a2 a3 a4 o1 o2 o3 o4 show ?thesis by blast
qed

theorem flatten_same_operation_witness:
  "visit example_host (builder_init SHOULD ''text'')
     (AndOperation [Word ''a'', AndOperation [Word ''b'', AndOperation [Word ''c'', Word ''d'']]])
     = Inr (EMust [EWord ''a'' ''text'' [] no_attrs, EWord ''b'' ''text'' [] no_attrs,
                   EWord ''c'' ''text'' [] no_attrs, EWord ''d'' ''text'' [] no_attrs] no_attrs) \<and>
   visit example_host (builder_init SHOULD ''text'')
     (AndOperation [Word ''a'', AndOperation [Word ''b'', Word ''c'']])
     = visit example_host (builder_init SHOULD ''text'')
     (AndOperation [AndOperation [Word ''a'', Word ''b''], Word ''c'']) \<and>
   visit example_host (builder_init SHOULD ''text'')
     (OrOperation [Word ''a'', OrOperation [Word ''b'', OrOperation [Word ''c'', Word ''d'']]])
     = Inr (EShould [EWord ''a'' ''text'' [] no_attrs, EWord ''b'' ''text'' [] no_attrs,
                     EWord ''c'' ''text'' [] no_attrs, EWord ''d'' ''text'' [] no_attrs] no_attrs)"
proof -
  let ?h = example_host and ?b = "builder_init SHOULD ''text''"
  let ?A = "Word ''a'' :: int node" and ?B = "Word ''b'' :: int node"
  let ?C = "Word ''c'' :: int node" and ?D = "Word ''d'' :: int node"
  let ?A' = "EWord ''a'' ''text'' [] no_attrs :: real eitem"
  let ?B' = "EWord ''b'' ''text'' [] no_attrs :: real eitem"
  let ?C' = "EWord ''c'' ''text'' [] no_attrs :: real eitem"
  let ?D' = "EWord ''d'' ''text'' [] no_attrs :: real eitem"
  have pa: "(\<forall>x\<in>set [?A, ?B, ?C, ?D]. type_of x \<noteq> TAndOperation \<and> kind_of ?b x \<noteq> Some ShouldKind) \<and>
    visit ?h ?b ?A = Inr ?A' \<and> visit ?h ?b ?B = Inr ?B' \<and> visit ?h ?b ?C = Inr ?C' \<and>
    visit ?h ?b ?D = Inr ?D'"
    by (simp add: eval_defs)
  have po: "(\<forall>x\<in>set [?A, ?B, ?C, ?D]. type_of x \<noteq> TOrOperation \<and> kind_of ?b x \<noteq> Some MustKind) \<and>
    visit ?h ?b ?A = Inr ?A' \<and> visit ?h ?b ?B = Inr ?B' \<and> visit ?h ?b ?C = Inr ?C' \<and>
    visit ?h ?b ?D = Inr ?D'"
    by (simp add: eval_defs)
  note inst =
    flatten_same_operation [of "[]" "[]" "[]" "[]" "[]" ?h ?b PyNone ?A ?B ?C ?D ?A' ?B' ?C' ?D']
  from inst pa
  have a: "visit ?h ?b (AndOperation [?A, AndOperation [?B, AndOperation [?C, ?D]]])
        = Inr (EMust [?A', ?B', ?C', ?D'] no_attrs) \<and>
      visit ?h ?b (AndOperation [?A, AndOperation [?B, ?C]]) = Inr (EMust [?A', ?B', ?C'] no_attrs) \<and>
      visit ?h ?b (AndOperation [AndOperation [?A, ?B], ?C]) = Inr (EMust [?A', ?B', ?C'] no_attrs)"
    by blast
  from inst po
  have o: "visit ?h ?b (OrOperation [?A, OrOperation [?B, OrOperation [?C, ?D]]])
        = Inr (EShould [?A', ?B', ?C', ?D'] no_attrs)"
    by blast
  from a o show ?thesis by (simp only:)
qed

theorem flatten_same_operation_counterexample:
  "visit example_host (builder_init SHOULD ''text'')
     (AndOperation [Word ''a'', Group (AndOperation [Word ''b'',
        Group (AndOperation [Word ''c'', Word ''d''])])])
     = Inr (EMust [EWord ''a'' ''text'' [] no_attrs,
                   EMust [EWord ''b'' ''text'' [] no_attrs,
                          EMust [EWord ''c'' ''text'' [] no_attrs,
                                 EWord ''d'' ''text'' [] no_attrs] no_attrs] no_attrs]
              no_attrs) \<and>
   visit example_host (builder_init SHOULD ''text'')
     (AndOperation [Word ''a'', Group (AndOperation [Word ''b'', Word ''c''])])
   \<noteq> visit example_host (builder_init SHOULD ''text'')
     (AndOperation [Group (AndOperation [Word ''a'', Word ''b'']), Word ''c''])"
  by (simp add: example_host_def builder_init_def build_def is_must_def is_should_def
      MUST_def SHOULD_def)

text \<open>
  C10. A \<^verbatim>\<open>Not\<close> or \<^verbatim>\<open>Prohibit\<close> is of neither boolean kind, whatever it wraps, so the
  check of \<^verbatim>\<open>_yield_nested_children\<close> passes it: when the wrapped \<^verbatim>\<open>OrOperation\<close>
  compiles, and the \<^verbatim>\<open>AndOperation\<close> over the other operands compiles, the
  \<^verbatim>\<open>AndOperation\<close> with the negation among its operands compiles, to the \<^verbatim>\<open>EMust\<close> of
  the other items with the \<^verbatim>\<open>EMustNot\<close> of the disjunction at the operand's place.
\<close>

theorem negation_is_boundary:
  assumes neg: "neg = Not (OrOperation xs) \<or> neg = Prohibit (OrOperation xs)"
    and inner: "visit h b (OrOperation xs) = Inr s"
    and rest: "visit h b (AndOperation (pre @ post)) = Inr r"
  shows "\<not> opposite_kind b (AndOperation (pre @ neg # post)) neg \<and>
         (\<exists>is1 is2. r = EMust (is1 @ is2) no_attrs \<and>
            length is1 = length (simplify_if_same pre (AndOperation [])) \<and>
            visit h b (AndOperation (pre @ neg # post))
              = Inr (EMust (is1 @ EMustNot [s] no_attrs # is2) no_attrs))"
proof -
  let ?p = "AndOperation (pre @ neg # post)"
  have t: "type_of neg \<noteq> type_of ?p" and nm: "\<not> is_must b neg" and ns: "\<not> is_should b neg"
    using neg by (auto simp: is_must_def is_should_def)
  have vneg: "visit h b neg = Inr (EMustNot [s] no_attrs)"
    using neg inner by (auto simp: build_def)
  from rest obtain items where r: "r = EMust items no_attrs"
    and ok: "visit_items h b (yield_nested_children h b (AndOperation (pre @ post))
               (simplify_if_same (pre @ post) (AndOperation (pre @ post)))) = Inr items"
    by (auto simp: build_Inr_iff)
  have "yield_nested_children h b (AndOperation (pre @ post))
          (simplify_if_same (pre @ post) (AndOperation (pre @ post)))
        = yield_nested_children h b ?p (simplify_if_same (pre @ post) ?p)"
    using simplify_if_same_type [of "AndOperation (pre @ post)" ?p "pre @ post"]
    by (simp add: yield_nested_children_cong [of b "AndOperation (pre @ post)" ?p]
          is_must_def is_should_def)
  with ok have ok': "visit_items h b (yield_nested_children h b ?p
       (simplify_if_same (pre @ post) ?p)) = Inr items" by simp
  from operands_insert [OF ok' t nm ns vneg]
  obtain is1 is2 where "items = is1 @ is2" "length is1 = length (simplify_if_same pre ?p)"
    and v: "visit_items h b (yield_nested_children h b ?p
              (simplify_if_same (pre @ neg # post) ?p))
            = Inr (is1 @ EMustNot [s] no_attrs # is2)"
    by blast
  moreover have "simplify_if_same pre ?p = simplify_if_same pre (AndOperation [])"
    by (rule simplify_if_same_type) simp
  moreover have "visit h b ?p = Inr (EMust (is1 @ EMustNot [s] no_attrs # is2) no_attrs)"
    using v by (simp add: build_def)
  moreover have "\<not> opposite_kind b ?p neg"
    using nm ns by (simp add: opposite_kind_iff)
  ultimately show ?thesis using r by auto
qed

theorem negation_is_boundary_witness:
  "visit example_host (builder_init SHOULD ''text'')
     (AndOperation [Word ''a'', Not (OrOperation [Word ''b'', Word ''c''])])
     = Inr (EMust [EWord ''a'' ''text'' [] no_attrs,
                   EMustNot [EShould [EWord ''b'' ''text'' [] no_attrs,
                                      EWord ''c'' ''text'' [] no_attrs] no_attrs] no_attrs]
              no_attrs) \<and>
   visit example_host (builder_init SHOULD ''text'')
     (AndOperation [Word ''a'', Prohibit (OrOperation [Word ''b'', Word ''c''])])
     = Inr (EMust [EWord ''a'' ''text'' [] no_attrs,
                   EMustNot [EShould [EWord ''b'' ''text'' [] no_attrs,
                                      EWord ''c'' ''text'' [] no_attrs] no_attrs] no_attrs]
              no_attrs)"
proof -
  let ?h = example_host and ?b = "builder_init SHOULD ''text''"
  let ?xs = "[Word ''b'', Word ''c''] :: int node list"
  let ?s = "EShould [EWord ''b'' ''text'' [] no_attrs, EWord ''c'' ''text'' [] no_attrs] no_attrs
            :: real eitem"
  let ?a' = "EWord ''a'' ''text'' [] no_attrs :: real eitem"
  have inner: "visit ?h ?b (OrOperation ?xs) = Inr ?s"
    by (simp add: eval_defs)
  have rest: "visit ?h ?b (AndOperation ([Word ''a''] @ [])) = Inr (EMust [?a'] no_attrs)"
    by (simp add: eval_defs)
  have len: "length (simplify_if_same [Word ''a''] (AndOperation [] :: int node)) = 1"
    by simp
  have pick: "is1 = [?a'] \<and> is2 = []"
    if "EMust [?a'] no_attrs = EMust (is1 @ is2) no_attrs" and "length is1 = 1" for is1 is2
    using that by (cases is1) auto
  have n1: "Not (OrOperation ?xs) = Not (OrOperation ?xs) \<or>
            Not (OrOperation ?xs) = Prohibit (OrOperation ?xs)" by simp
  have n2: "Prohibit (OrOperation ?xs) = Not (OrOperation ?xs) \<or>
            Prohibit (OrOperation ?xs) = Prohibit (OrOperation ?xs)" by simp
  from negation_is_boundary [OF n1 inner rest] len pick
  have 1: "visit ?h ?b (AndOperation ([Word ''a''] @ Not (OrOperation ?xs) # []))
      = Inr (EMust ([?a'] @ EMustNot [?s] no_attrs # []) no_attrs)"
    by metis
  from negation_is_boundary [OF n2 inner rest] len pick
  have 2: "visit ?h ?b (AndOperation ([Word ''a''] @ Prohibit (OrOperation ?xs) # []))
      = Inr (EMust ([?a'] @ EMustNot [?s] no_attrs # []) no_attrs)"
    by metis
  from 1 2 show ?thesis by (simp only: append.simps) 
qed



lemma search_field_scoping:
  assumes child: "visit h b a = Inr enode"
    and ok: "none_free enode" "unnested enode"
  shows "\<exists>inner. all_fields inner = map ((#) name) (all_fields enode) \<and>
            clear_fields inner = clear_fields enode \<and>
            visit h b (SearchField name a) =
              Inr (if search_field_below (SearchField name a)
                   then ENested name inner no_attrs else inner)"
proof -
  from ok obtain inner where inner: "set_search_field_in_all_children enode name = Inr inner"
    using set_search_field_succeeds(1) by blast
  then have "all_fields inner = map ((#) name) (all_fields enode)"
    and "clear_fields inner = clear_fields enode"
    by (rule set_search_field_fields(1), rule set_search_field_clear(1))
  moreover have "visit h b (SearchField name a) =
      Inr (if search_field_below (SearchField name a) then ENested name inner no_attrs else inner)"
    using child inner is_nested_below [of "SearchField name a"]
    by (simp del: is_nested_SearchField)
  ultimately show ?thesis by blast
qed

text \<open>
  C4 (what the code does). A \<^verbatim>\<open>SearchField\<close> over an operand whose item is an
  \<^verbatim>\<open>ENested\<close>, or holds one, raises TypeError: \<^verbatim>\<open>_set_search_field_in_all_children\<close>
  iterates the \<^verbatim>\<open>items\<close> of the inner \<^verbatim>\<open>ENested\<close>, which is one item and no list. So
  three search fields nested in one another, with or without the groups between them, do
  not compile, where the claim has an \<^verbatim>\<open>ENested\<close> with the name in front of every leaf.
  Two nested search fields compile as the claim says: \<^verbatim>\<open>illustrators:(nationality:UK)\<close>
  gives the \<^verbatim>\<open>ENested\<close> of path illustrators around the word whose fields start with
  illustrators, nationality.
\<close>

theorem search_field_three_deep:
  "visit h b (SearchField n1 (SearchField n2 (SearchField n3 (Word v)))) = Inl TypeError \<and>
   visit h b (SearchField ''a'' (FieldGroup (SearchField ''b'' (FieldGroup
       (SearchField ''c'' (Word ''x'')))))) = Inl TypeError \<and>
   visit h b (SearchField ''illustrators'' (FieldGroup (SearchField ''nationality'' (Word ''UK''))))
     = Inr (ENested ''illustrators''
         (EWord ''UK'' (default_field b)
            (''illustrators'' # ''nationality'' # leaf_fields h (Some (default_field b))) no_attrs)
         no_attrs)"
  by simp

text \<open>
  C5 (as amended). The item a node compiles to has the constructor read off the node by
  \<open>compiles_to\<close>: \<^verbatim>\<open>EMust\<close> for an \<^verbatim>\<open>AndOperation\<close> and a \<^verbatim>\<open>Plus\<close>, \<^verbatim>\<open>EShould\<close> for
  an \<^verbatim>\<open>OrOperation\<close>, the default operator's for an \<^verbatim>\<open>UnknownOperation\<close>, that of the
  operand for a group, a modifier and a search field that is not nested. In the item of a
  tree in which no operand of an \<^verbatim>\<open>AndOperation\<close>, \<^verbatim>\<open>OrOperation\<close>,
  \<^verbatim>\<open>UnknownOperation\<close> or \<^verbatim>\<open>Plus\<close> is a node of another class that compiles to its
  parent's constructor, no \<^verbatim>\<open>EMust\<close> directly holds an \<^verbatim>\<open>EMust\<close> and no \<^verbatim>\<open>EShould\<close>
  directly holds an \<^verbatim>\<open>EShould\<close>. Where there is such an operand, a \<^verbatim>\<open>Plus\<close> or an
  \<^verbatim>\<open>UnknownOperation\<close> under MUST among the operands of an \<^verbatim>\<open>AndOperation\<close>, the
  \<^verbatim>\<open>EMust\<close> does hold an \<^verbatim>\<open>EMust\<close>.
\<close>

theorem flattening_invariant:
  assumes "visit h b n = Inr e"
  shows "kind_of_item e = compiles_to b n \<and> (separated b n \<longrightarrow> flat_item e)"
  using assms visit_kind(1) [of h b n e] visit_flat(1) [of b n h e] by blast

theorem flattening_invariant_witness:
  "separated (builder_init MUST ''text'')
     (AndOperation [Word ''a'', AndOperation [Word ''b'',
        Not (OrOperation [Word ''d'', OrOperation [Word ''e'', Word ''f'']])]] :: int node) \<and>
   visit example_host (builder_init MUST ''text'')
     (AndOperation [Word ''a'', AndOperation [Word ''b'',
        Not (OrOperation [Word ''d'', OrOperation [Word ''e'', Word ''f'']])]])
     = Inr (EMust [EWord ''a'' ''text'' [] no_attrs, EWord ''b'' ''text'' [] no_attrs,
          EMustNot [EShould [EWord ''d'' ''text'' [] no_attrs, EWord ''e'' ''text'' [] no_attrs,
                             EWord ''f'' ''text'' [] no_attrs] no_attrs] no_attrs] no_attrs) \<and>
   flat_item (EMust [EWord ''a'' ''text'' [] no_attrs, EWord ''b'' ''text'' [] no_attrs,
          EMustNot [EShould [EWord ''d'' ''text'' [] no_attrs, EWord ''e'' ''text'' [] no_attrs,
                             EWord ''f'' ''text'' [] no_attrs] no_attrs] no_attrs] no_attrs
        :: real eitem)"
proof -
  let ?b = "builder_init MUST ''text''"
  let ?n = "AndOperation [Word ''a'', AndOperation [Word ''b'',
        Not (OrOperation [Word ''d'', OrOperation [Word ''e'', Word ''f'']])]] :: int node"
  let ?e = "EMust [EWord ''a'' ''text'' [] no_attrs, EWord ''b'' ''text'' [] no_attrs,
          EMustNot [EShould [EWord ''d'' ''text'' [] no_attrs, EWord ''e'' ''text'' [] no_attrs,
                             EWord ''f'' ''text'' [] no_attrs] no_attrs] no_attrs] no_attrs
        :: real eitem"
  have v: "visit example_host ?b ?n = Inr ?e"
    by (simp add: example_host_def builder_init_def build_def is_must_def is_should_def
        MUST_def SHOULD_def)
  have s: "separated ?b ?n"
    by (simp add: builder_init_def MUST_def SHOULD_def)
  from flattening_invariant [OF v] s have "flat_item ?e" by blast
  with v s show ?thesis by blast
qed

theorem flattening_invariant_counterexample:
  "visit example_host (builder_init MUST ''text'')
     (AndOperation [Word ''a'', UnknownOperation [Word ''b'', Word ''c'']])
     = Inr (EMust [EWord ''a'' ''text'' [] no_attrs,
                   EMust [EWord ''b'' ''text'' [] no_attrs,
                          EWord ''c'' ''text'' [] no_attrs] no_attrs] no_attrs) \<and>
   visit example_host (builder_init MUST ''text'') (AndOperation [Word ''a'', Plus (Word ''b'')])
     = Inr (EMust [EWord ''a'' ''text'' [] no_attrs,
                   EMust [EWord ''b'' ''text'' [] no_attrs] no_attrs] no_attrs) \<and>
   visit example_host (builder_init SHOULD ''text'')
     (OrOperation [Word ''a'', UnknownOperation [Word ''b'', Word ''c'']])
     = Inr (EShould [EWord ''a'' ''text'' [] no_attrs,
                     EShould [EWord ''b'' ''text'' [] no_attrs,
                              EWord ''c'' ''text'' [] no_attrs] no_attrs] no_attrs) \<and>
   \<not> flat_item (EMust [EWord ''a'' ''text'' [] no_attrs,
                   EMust [EWord ''b'' ''text'' [] no_attrs,
                          EWord ''c'' ''text'' [] no_attrs] no_attrs] no_attrs :: real eitem)"
  by (simp add: example_host_def builder_init_def build_def is_must_def is_should_def
      MUST_def SHOULD_def)

end
